theory Spec2Isabelle
  imports Main "HOL-Library.AList"
begin

section \<open>Python values and text\<close>

text \<open>
  The two programs are \<^verbatim>\<open>images/cleaner/clean.py\<close> (the Normalizer) and
  \<^verbatim>\<open>images/consumer/app.py\<close> (the Consumer with its Record Mapper).

  A Python \<^verbatim>\<open>str\<close> is a list of characters; a \<^typ>\<open>char\<close> stands for one code
  point in the range U+0000 to U+00FF, which covers every header name and key the sources
  spell out (the accented letters are written by code point, \<open>e\<close> acute being
  \<open>CHR 0xE9\<close>).

  The values met in a CSV cell, in a field of a decoded message and in an emitted record
  are the scalars \<^verbatim>\<open>None\<close>, \<^verbatim>\<open>bool\<close>, \<^verbatim>\<open>int\<close> (unbounded) and
  \<^verbatim>\<open>str\<close>. Floating point numbers occur only inside \<^verbatim>\<open>to_int\<close>, as the result of
  \<^verbatim>\<open>float(x)\<close> on a text: a message field that holds a JSON number with a fraction or
  an exponent, an array or an object is outside the model. The interpreter is CPython from
  3.11 on, where the conversion between \<^verbatim>\<open>int\<close> and text is limited to 4300 digits;
  \<^verbatim>\<open>json.loads\<close> refuses a longer literal, so that \<^verbatim>\<open>str(x)\<close> never raises on an
  \<^verbatim>\<open>int\<close> of a message.
\<close>

datatype pyval = PNone | PBool bool | PInt int | PStr string

text \<open>Truth value of an object, as \<^verbatim>\<open>not x\<close> and \<^verbatim>\<open>x or y\<close> test it.\<close>

fun truthy :: "pyval \<Rightarrow> bool" where
  "truthy PNone = False"
| "truthy (PBool b) = b"
| "truthy (PInt n) = (n \<noteq> 0)"
| "truthy (PStr s) = (s \<noteq> [])"

text \<open>\<^verbatim>\<open>x or y\<close>: the left operand when it is true, otherwise the right operand.\<close>

definition py_or :: "pyval \<Rightarrow> pyval \<Rightarrow> pyval" where
  "py_or x y = (if truthy x then x else y)"

subsection \<open>str.strip, str.lower, str.replace\<close>

text \<open>\<^verbatim>\<open>str.isspace\<close> on one character: the white space of Unicode below U+0100.\<close>

definition py_isspace :: "char \<Rightarrow> bool" where
  "py_isspace c =
     (let n = (of_char c :: nat)
      in (9 \<le> n \<and> n \<le> 13) \<or> (28 \<le> n \<and> n \<le> 32) \<or> n = 133 \<or> n = 160)"

definition strip :: "string \<Rightarrow> string" where
  "strip s = rev (dropWhile py_isspace (rev (dropWhile py_isspace s)))"

text \<open>
  \<^verbatim>\<open>str.lower\<close> on one character: the capital letters A to Z, and U+00C0 to U+00DE
  without the multiplication sign U+00D7, move up by 32.
\<close>

definition lower_char :: "char \<Rightarrow> char" where
  "lower_char c =
     (let n = (of_char c :: nat)
      in if (65 \<le> n \<and> n \<le> 90) \<or> (192 \<le> n \<and> n \<le> 222 \<and> n \<noteq> 215)
         then char_of (n + 32) else c)"

definition lower :: "string \<Rightarrow> string" where
  "lower s = map lower_char s"

text \<open>\<^verbatim>\<open>s.replace(old, new)\<close> for an \<^verbatim>\<open>old\<close> of one character.\<close>

definition replace :: "char \<Rightarrow> string \<Rightarrow> string \<Rightarrow> string" where
  "replace old new s = concat (map (\<lambda>c. if c = old then new else [c]) s)"

subsection \<open>str(x)\<close>

definition digit_char :: "int \<Rightarrow> char" where
  "digit_char d = char_of (48 + d)"

text \<open>The decimal digits of a number that is not negative.\<close>

function str_of_nat :: "int \<Rightarrow> string" where
  "str_of_nat n =
     (if n < 10 then [digit_char n] else str_of_nat (n div 10) @ [digit_char (n mod 10)])"
  by pat_completeness auto
termination
  by (relation "measure nat") auto

declare str_of_nat.simps [simp del]

definition str_of_int :: "int \<Rightarrow> string" where
  "str_of_int i = (if i < 0 then CHR ''-'' # str_of_nat (- i) else str_of_nat i)"

fun py_str :: "pyval \<Rightarrow> string" where
  "py_str PNone = ''None''"
| "py_str (PBool b) = (if b then ''True'' else ''False'')"
| "py_str (PInt i) = str_of_int i"
| "py_str (PStr s) = s"

subsection \<open>int(x) and float(x) on a text\<close>

text \<open>
  Both constructors skip white space at either end of the text. Code points below U+007F
  are white space here only when they are one of tab, line feed, vertical tab, form feed,
  carriage return and space; U+0085 and U+00A0 are turned into a space first.
\<close>

definition num_isspace :: "char \<Rightarrow> bool" where
  "num_isspace c =
     (let n = (of_char c :: nat) in (9 \<le> n \<and> n \<le> 13) \<or> n = 32 \<or> n = 133 \<or> n = 160)"

definition num_strip :: "string \<Rightarrow> string" where
  "num_strip s = rev (dropWhile num_isspace (rev (dropWhile num_isspace s)))"

definition is_digit :: "char \<Rightarrow> bool" where
  "is_digit c = (let n = (of_char c :: nat) in 48 \<le> n \<and> n \<le> 57)"

definition digit_val :: "char \<Rightarrow> int" where
  "digit_val c = of_char c - 48"

text \<open>The number a run of decimal digits denotes.\<close>

definition digits_val :: "string \<Rightarrow> int" where
  "digits_val ds = foldl (\<lambda>a c. 10 * a + digit_val c) 0 ds"

text \<open>
  An underscore may group digits: it must stand between two digits. \<open>underscores_ok p s\<close>
  reads \<open>s\<close> with \<open>p\<close> the character before it.
\<close>

fun underscores_ok :: "char option \<Rightarrow> string \<Rightarrow> bool" where
  "underscores_ok p [] = (p \<noteq> Some CHR ''_'')"
| "underscores_ok p (c # cs) =
     ((if c = CHR ''_'' then (case p of Some q \<Rightarrow> is_digit q | None \<Rightarrow> False)
       else (p = Some CHR ''_'' \<longrightarrow> is_digit c))
      \<and> underscores_ok (Some c) cs)"

definition drop_underscores :: "string \<Rightarrow> string option" where
  "drop_underscores s =
     (if underscores_ok None s then Some (filter (\<lambda>c. c \<noteq> CHR ''_'') s) else None)"

text \<open>An optional sign in front of the rest: \<open>True\<close> for a minus sign.\<close>

fun split_sign :: "string \<Rightarrow> bool \<times> string" where
  "split_sign [] = (False, [])"
| "split_sign (c # cs) =
     (if c = CHR ''-'' then (True, cs) else if c = CHR ''+'' then (False, cs) else (False, c # cs))"

text \<open>
  \<^verbatim>\<open>int(s)\<close> in base ten; \<open>None\<close> is the \<^verbatim>\<open>ValueError\<close>. A text of more than
  4300 digits is refused (the interpreter's default limit on the conversion).
\<close>

definition int_max_str_digits :: int where
  "int_max_str_digits = 4300"

definition int_of_str :: "string \<Rightarrow> int option" where
  "int_of_str s =
     (let (neg, body) = split_sign (num_strip s)
      in case drop_underscores body of
           None \<Rightarrow> None
         | Some ds \<Rightarrow>
             if ds = [] \<or> \<not> list_all is_digit ds \<or> int (length ds) > int_max_str_digits then None
             else Some (if neg then - digits_val ds else digits_val ds))"

text \<open>
  A binary floating point number of 64 bits: \<open>Finite neg m e\<close> is the number
  \<open>m * 2 ^ e\<close>, negated when \<open>neg\<close> holds.
\<close>

datatype pyfloat = Finite bool int int | Infinity bool | NaN

text \<open>The number of binary digits of a positive number.\<close>

function bit_length :: "int \<Rightarrow> int" where
  "bit_length n = (if n \<le> 0 then 0 else 1 + bit_length (n div 2))"
  by pat_completeness auto
termination
  by (relation "measure nat") auto

declare bit_length.simps [simp del]

text \<open>\<open>ge_pow2 n d k\<close>: the fraction \<open>n / d\<close> is at least \<open>2 ^ k\<close>.\<close>

definition ge_pow2 :: "int \<Rightarrow> int \<Rightarrow> int \<Rightarrow> bool" where
  "ge_pow2 n d k = (if 0 \<le> k then d * 2 ^ nat k \<le> n else d \<le> n * 2 ^ nat (- k))"

text \<open>
  The double nearest to the positive fraction \<open>n / d\<close>, ties to the even significand:
  53 bits of significand, the least exponent of a normal number \<open>- 1022\<close>, and infinity
  from \<open>2 ^ 1024\<close> on.
\<close>

definition round_double :: "bool \<Rightarrow> int \<Rightarrow> int \<Rightarrow> pyfloat" where
  "round_double neg n d =
     (if n = 0 then Finite neg 0 0
      else
        let k = bit_length n - bit_length d;
            e = (if ge_pow2 n d k then k else k - 1);
            x = max e (- 1022) - 52;
            num = (if x < 0 then n * 2 ^ nat (- x) else n);
            den = (if x < 0 then d else d * 2 ^ nat x);
            q = num div den;
            r = num mod den;
            m = (if 2 * r < den \<or> (2 * r = den \<and> even q) then q else q + 1)
        in if 971 < x \<or> (x = 971 \<and> 2 ^ 53 \<le> m) then Infinity neg else Finite neg m x)"

text \<open>
  A decimal numeral with an optional fraction and an optional exponent, as the pair
  \<open>(m, k)\<close> that stands for \<open>m * 10 ^ k\<close>.
\<close>

definition parse_decimal :: "string \<Rightarrow> (int \<times> int) option" where
  "parse_decimal s =
     (let ip = takeWhile is_digit s;
          r1 = dropWhile is_digit s;
          (fp, r2) = (case r1 of
                        [] \<Rightarrow> ([], [])
                      | c # cs \<Rightarrow>
                          if c = CHR ''.'' then (takeWhile is_digit cs, dropWhile is_digit cs)
                          else ([], r1))
      in if ip = [] \<and> fp = [] then None
         else case r2 of
                [] \<Rightarrow> Some (digits_val (ip @ fp), - int (length fp))
              | c # cs \<Rightarrow>
                  if c = CHR ''e'' \<or> c = CHR ''E'' then
                    (let (eneg, ds) = split_sign cs
                     in if ds \<noteq> [] \<and> list_all is_digit ds
                        then Some (digits_val (ip @ fp),
                                   (if eneg then - digits_val ds else digits_val ds)
                                     - int (length fp))
                        else None)
                  else None)"

text \<open>\<^verbatim>\<open>float(s)\<close>; \<open>None\<close> is the \<^verbatim>\<open>ValueError\<close>.\<close>

definition float_of_str :: "string \<Rightarrow> pyfloat option" where
  "float_of_str s =
     (case drop_underscores s of
        None \<Rightarrow> None
      | Some t \<Rightarrow>
          let (neg, body) = split_sign (num_strip t)
          in if lower body = ''inf'' \<or> lower body = ''infinity'' then Some (Infinity neg)
             else if lower body = ''nan'' then Some NaN
             else (case parse_decimal body of
                     None \<Rightarrow> None
                   | Some (m, k) \<Rightarrow>
                       Some (if 0 \<le> k then round_double neg (m * 10 ^ nat k) 1
                             else round_double neg m (10 ^ nat (- k)))))"

text \<open>
  \<^verbatim>\<open>int(f)\<close> on a float truncates toward zero; \<open>None\<close> is the \<^verbatim>\<open>OverflowError\<close> on an
  infinity and the \<^verbatim>\<open>ValueError\<close> on a NaN.
\<close>

fun int_of_float :: "pyfloat \<Rightarrow> int option" where
  "int_of_float (Finite neg m e) =
     (let a = (if 0 \<le> e then m * 2 ^ nat e else m div 2 ^ nat (- e))
      in Some (if neg then - a else a))"
| "int_of_float (Infinity neg) = None"
| "int_of_float NaN = None"

section \<open>The Field Codec of the Normalizer (clean.py)\<close>

text \<open>\<^verbatim>\<open>norm(s)\<close>: \<^verbatim>\<open>s.strip().lower().replace(" ", "_")\<close>.\<close>

definition norm :: "string \<Rightarrow> string" where
  "norm s = replace CHR '' '' ''_'' (lower (strip s))"

text \<open>
  \<^verbatim>\<open>to_int(x)\<close>: \<^verbatim>\<open>None\<close> for \<^verbatim>\<open>None\<close> and for a text that is empty once stripped,
  otherwise \<^verbatim>\<open>int(float(x))\<close>, and \<^verbatim>\<open>None\<close> when either conversion raises.
\<close>

definition to_int :: "pyval \<Rightarrow> pyval" where
  "to_int x =
     (if x = PNone then PNone
      else let s = strip (py_str x)
           in if s = [] then PNone
              else case float_of_str s of
                     None \<Rightarrow> PNone
                   | Some f \<Rightarrow> (case int_of_float f of None \<Rightarrow> PNone | Some i \<Rightarrow> PInt i))"

text \<open>\<^verbatim>\<open>to_bool01_fr(x)\<close>: the French and English tokens of a yes or a no, as 1 or 0.\<close>

definition to_bool01_fr :: "pyval \<Rightarrow> pyval" where
  "to_bool01_fr x =
     (if x = PNone then PNone
      else let s = lower (strip (py_str x))
           in if s = [] then PNone
              else if s \<in> set [''oui'', ''true'', ''1'', ''vrai''] then PInt 1
              else if s \<in> set [''non'', ''false'', ''0'', ''faux''] then PInt 0
              else PNone)"

section \<open>The Record Mapper's integer conversion (app.py)\<close>

text \<open>\<^verbatim>\<open>int(x)\<close> on a value; \<open>None\<close> is the exception (\<^verbatim>\<open>ValueError\<close>, \<^verbatim>\<open>TypeError\<close>).\<close>

fun py_int :: "pyval \<Rightarrow> int option" where
  "py_int PNone = None"
| "py_int (PBool b) = Some (if b then 1 else 0)"
| "py_int (PInt i) = Some i"
| "py_int (PStr s) = int_of_str s"

text \<open>\<^verbatim>\<open>to_int_or_none(x)\<close>: \<^verbatim>\<open>int(x)\<close>, and \<^verbatim>\<open>None\<close> for \<^verbatim>\<open>None\<close> or when it raises.\<close>

definition to_int_or_none :: "pyval \<Rightarrow> pyval" where
  "to_int_or_none x =
     (if x = PNone then PNone
      else case py_int x of None \<Rightarrow> PNone | Some i \<Rightarrow> PInt i)"

section \<open>The Schema Normalizer (main of clean.py)\<close>

datatype exn =
    KeyError string
  | ValueError string
  | RuntimeError string
  | AttributeError
  | JSONDecodeError
  | MySQLError
  | UnicodeDecodeError
  | CommitFailedError

text \<open>
  A \<^verbatim>\<open>dict\<close> with text keys is an association list in insertion order: storing under a
  key that is present replaces the value in place, storing under a new key appends
  (\<^const>\<open>AList.update\<close>). \<^verbatim>\<open>d.get(k)\<close> gives \<^verbatim>\<open>None\<close> for an absent key.
\<close>

type_synonym pydict = "(string \<times> pyval) list"

definition get :: "pydict \<Rightarrow> string \<Rightarrow> pyval" where
  "get d k = (case map_of d k of None \<Rightarrow> PNone | Some v \<Rightarrow> v)"

text \<open>
  One step of \<^verbatim>\<open>csv.DictReader\<close>: the row of \<^verbatim>\<open>csv.reader\<close> zipped with the field
  names; the field names left over get \<^verbatim>\<open>None\<close>, the cells left over are stored as a
  list under the key \<^verbatim>\<open>None\<close>. The result is the entries under text keys, and the list
  under \<^verbatim>\<open>None\<close> when there is one.
\<close>

definition dictreader_row :: "string list \<Rightarrow> string list \<Rightarrow> pydict \<times> string list option" where
  "dictreader_row fieldnames row =
     (let d = fold (\<lambda>(k, v). AList.update k (PStr v)) (zip fieldnames row) []
      in if length fieldnames < length row then (d, Some (drop (length fieldnames) row))
         else if length row < length fieldnames
         then (fold (\<lambda>k. AList.update k PNone) (drop (length row) fieldnames) d, None)
         else (d, None))"

text \<open>
  The inner loop \<^verbatim>\<open>for k, v in row.items()\<close>: the entry under \<^verbatim>\<open>None\<close> is passed over,
  every other value is stored, stripped when it is a text, under \<^verbatim>\<open>mapping[k]\<close>, which
  raises \<^verbatim>\<open>KeyError\<close> for a key the mapping lacks.
\<close>

fun build_r :: "(string \<times> string) list \<Rightarrow> pydict \<Rightarrow> pydict \<Rightarrow> exn + pydict" where
  "build_r mapping [] r = Inr r"
| "build_r mapping ((k, v) # items) r =
     (case map_of mapping k of
        None \<Rightarrow> Inl (KeyError k)
      | Some nk \<Rightarrow>
          build_r mapping items
            (AList.update nk (case v of PStr s \<Rightarrow> PStr (strip s) | _ \<Rightarrow> v) r))"

abbreviation (input) eacute :: char where
  "eacute \<equiv> CHR 0xE9"

text \<open>
  The body of \<^verbatim>\<open>for row in reader\<close>: \<open>Inr None\<close> is the \<^verbatim>\<open>continue\<close> of a row that is
  passed over, \<open>Inr (Some out)\<close> the record appended to \<^verbatim>\<open>cleaned_rows\<close>.
\<close>

definition clean_row :: "(string \<times> string) list \<Rightarrow> pydict \<times> string list option \<Rightarrow> exn + pydict option" where
  "clean_row mapping row =
     (case build_r mapping (fst row) [] of
        Inl e \<Rightarrow> Inl e
      | Inr r \<Rightarrow>
          let station_code = get r ''identifiant_station'';
              station_name = get r ''nom_station'';
              due_date = py_or (get r (''actualisation_de_la_donn'' @ eacute # ''e''))
                               (get r ''actualisation_de_la_donnee'')
          in if \<not> truthy station_code \<or> \<not> truthy due_date then Inr None
             else Inr (Some
               [(''station_code'', PStr (strip (py_str station_code))),
                (''name'', station_name),
                (''is_installed'', to_bool01_fr (get r ''station_en_fonctionnement'')),
                (''capacity'', to_int (py_or (get r (''capacit'' @ eacute # ''_de_la_station''))
                                             (get r ''capacite_de_la_station''))),
                (''numdocksavailable'', to_int (get r ''nombre_bornettes_libres'')),
                (''numbikesavailable'',
                   to_int (py_or (get r (''nombre_total_v'' @ eacute # ''los_disponibles''))
                                 (get r ''nombre_total_velos_disponibles''))),
                (''mechanical'',
                   to_int (py_or (get r (''v'' @ eacute # ''los_m'' @ eacute # ''caniques_disponibles''))
                                 (get r ''velos_mecaniques_disponibles''))),
                (''ebike'',
                   to_int (py_or (get r (''v'' @ eacute # ''los_'' @ eacute # ''lectriques_disponibles''))
                                 (get r ''velos_electriques_disponibles''))),
                (''is_returning'',
                   to_bool01_fr (py_or (get r (''retour_v'' @ eacute # ''lib_possible''))
                                       (get r ''retour_velib_possible''))),
                (''due_date'', PStr (strip (py_str due_date))),
                (''commune'', py_or (get r (''nom_communes_'' @ eacute # ''quip'' @ eacute # ''es''))
                                    (get r ''nom_communes_equipees'')),
                (''code_insee'',
                   py_or (get r (''code_insee_communes_'' @ eacute # ''quip'' @ eacute # ''es''))
                         (get r ''code_insee_communes_equipees'')),
                (''geo'', py_or (get r (''coordonn'' @ eacute # ''es_g'' @ eacute # ''ographiques''))
                                (get r ''coordonnees_geographiques''))]))"

text \<open>
  \<^verbatim>\<open>for row in reader\<close>, over the rows of \<^verbatim>\<open>csv.reader\<close> after the header:
  \<^verbatim>\<open>DictReader\<close> passes over an empty row.
\<close>

fun clean_loop :: "(string \<times> string) list \<Rightarrow> string list \<Rightarrow> string list list \<Rightarrow> pydict list \<Rightarrow> exn + pydict list" where
  "clean_loop mapping fieldnames [] cleaned_rows = Inr cleaned_rows"
| "clean_loop mapping fieldnames (row # rows) cleaned_rows =
     (if row = [] then clean_loop mapping fieldnames rows cleaned_rows
      else case clean_row mapping (dictreader_row fieldnames row) of
             Inl e \<Rightarrow> Inl e
           | Inr None \<Rightarrow> clean_loop mapping fieldnames rows cleaned_rows
           | Inr (Some out) \<Rightarrow> clean_loop mapping fieldnames rows (cleaned_rows @ [out]))"

text \<open>
  \<^verbatim>\<open>csv.DictWriter\<close>: a row is written as its values in the order of \<^verbatim>\<open>fieldnames\<close>,
  the empty text for a field the row lacks, and \<^verbatim>\<open>ValueError\<close> for a row with a key
  that is no field name.
\<close>

text \<open>The text of the \<^verbatim>\<open>ValueError\<close> is given without the list of the keys.\<close>

definition dict_to_list :: "string list \<Rightarrow> pydict \<Rightarrow> exn + pyval list" where
  "dict_to_list fieldnames rowdict =
     (if \<exists>k \<in> set (map fst rowdict). k \<notin> set fieldnames
      then Inl (ValueError ''dict contains fields not in fieldnames: '')
      else Inr (map (\<lambda>key. case map_of rowdict key of None \<Rightarrow> PStr [] | Some v \<Rightarrow> v) fieldnames))"

fun writerows :: "string list \<Rightarrow> pydict list \<Rightarrow> exn + pyval list list" where
  "writerows fieldnames [] = Inr []"
| "writerows fieldnames (r # rs) =
     (case dict_to_list fieldnames r of
        Inl e \<Rightarrow> Inl e
      | Inr cells \<Rightarrow>
          (case writerows fieldnames rs of Inl e \<Rightarrow> Inl e | Inr rest \<Rightarrow> Inr (cells # rest)))"

text \<open>
  What \<^verbatim>\<open>main\<close> writes: the table (its header and its rows of cells) and the records of
  the line-delimited file, one per line.
\<close>

record cleaner_output =
  csv_header :: "string list"
  csv_rows :: "pyval list list"
  jsonl :: "pydict list"

text \<open>
  \<^verbatim>\<open>main\<close> from the rows of \<^verbatim>\<open>csv.reader\<close> on: the first row holds the field names
  (none for an empty file).
\<close>

definition no_rows_message :: string where
  "no_rows_message =
     ''Aucune ligne nettoy'' @ eacute # ''e (v'' @ eacute
       # ''rifie les noms de colonnes / parsing).''"

text \<open>The end of \<^verbatim>\<open>main\<close>, from the test of \<^verbatim>\<open>cleaned_rows\<close> on.\<close>

definition write_outputs :: "pydict list \<Rightarrow> exn + cleaner_output" where
  "write_outputs cleaned_rows =
     (case cleaned_rows of
        [] \<Rightarrow> Inl (RuntimeError no_rows_message)
      | first # _ \<Rightarrow>
          (case writerows (map fst first) cleaned_rows of
             Inl e \<Rightarrow> Inl e
           | Inr cells \<Rightarrow>
               Inr \<lparr>csv_header = map fst first, csv_rows = cells, jsonl = cleaned_rows\<rparr>))"

definition cleaner_main :: "string list list \<Rightarrow> exn + cleaner_output" where
  "cleaner_main lines =
     (let raw_fields = (case lines of [] \<Rightarrow> [] | header # _ \<Rightarrow> header);
          mapping = map (\<lambda>c. (c, norm c)) raw_fields
      in case clean_loop mapping raw_fields (tl lines) [] of
           Inl e \<Rightarrow> Inl e
         | Inr cleaned_rows \<Rightarrow> write_outputs cleaned_rows)"

section \<open>The Ingestion Consumer (app.py)\<close>

subsection \<open>Library functions taken as parameters\<close>

text \<open>
  A \<^verbatim>\<open>datetime\<close>: the wall clock fields, and the offset from UTC (in microseconds) of an
  aware value, \<open>None\<close> for a naive one.
\<close>

record datetime =
  year :: int
  month :: int
  day :: int
  hour :: int
  minute :: int
  second :: int
  microsecond :: int
  tzinfo :: "int option"

text \<open>
  A decoded message: a JSON object, as a \<^verbatim>\<open>dict\<close> of scalar values, or any other JSON
  value (a number, a text, an array), which has no \<^verbatim>\<open>get\<close>.
\<close>

datatype payload = PObject pydict | POther

text \<open>
  The interpreter's \<^verbatim>\<open>datetime.fromisoformat\<close>, \<^verbatim>\<open>datetime.strptime\<close> (the text, then
  the format), \<^verbatim>\<open>json.loads\<close> and \<^verbatim>\<open>bytes.decode("utf-8")\<close>; \<open>None\<close> is the exception
  each of them raises on an input it refuses. What inputs they accept is the library's
  matter: every theorem below that is stated for a library \<open>lib\<close> holds for all four
  functions whatever they accept.
\<close>

record pylib =
  fromisoformat :: "string \<Rightarrow> datetime option"
  strptime :: "string \<Rightarrow> string \<Rightarrow> datetime option"
  json_loads :: "string \<Rightarrow> payload option"
  utf8_decode :: "string \<Rightarrow> string option"

subsection \<open>parse_due_date\<close>

text \<open>The loop over the two formats: the first one that \<^verbatim>\<open>strptime\<close> accepts.\<close>

fun try_formats :: "pylib \<Rightarrow> string \<Rightarrow> string list \<Rightarrow> datetime option" where
  "try_formats lib s [] = None"
| "try_formats lib s (fmt # fmts) =
     (case strptime lib s fmt of Some dt \<Rightarrow> Some dt | None \<Rightarrow> try_formats lib s fmts)"

definition parse_due_date :: "pylib \<Rightarrow> pyval \<Rightarrow> datetime option" where
  "parse_due_date lib v =
     (if v = PNone then None
      else let s = replace CHR ''Z'' ''+00:00'' (strip (py_str v))
           in case fromisoformat lib s of
                Some dt \<Rightarrow> Some (dt\<lparr>tzinfo := None\<rparr>)
              | None \<Rightarrow> try_formats lib s [''%Y-%m-%d %H:%M:%S'', ''%Y-%m-%d %H:%M''])"

subsection \<open>insert_row\<close>

text \<open>The thirteen parameters of the statement, in the columns' names.\<close>

record row =
  station_code :: string
  station_name :: pyval
  commune :: pyval
  capacity :: pyval
  docks_available :: pyval
  bikes_available :: pyval
  bikes_mechanical :: pyval
  bikes_ebike :: pyval
  is_installed :: pyval
  is_returning :: pyval
  due_date :: datetime
  code_insee :: string
  geo :: string

text \<open>
  The four mandatory values as \<^verbatim>\<open>insert_row\<close> computes them from the message, one
  definition for each assignment: the first alias with a true value, as a stripped text
  (the empty text when no alias has one), and the parsed date.
\<close>

definition station_code_of :: "pydict \<Rightarrow> string" where
  "station_code_of msg =
     strip (py_str (py_or (get msg ''station_code'')
                     (py_or (get msg ''stationcode'')
                       (py_or (get msg ''stationCode'') (PStr [])))))"

definition due_date_of :: "pylib \<Rightarrow> pydict \<Rightarrow> datetime option" where
  "due_date_of lib msg =
     parse_due_date lib (py_or (get msg ''due_date'')
                          (py_or (get msg ''duedate'') (get msg ''last_reported'')))"

definition code_insee_of :: "pydict \<Rightarrow> string" where
  "code_insee_of msg =
     strip (py_str (py_or (get msg ''code_insee'')
                     (py_or (get msg ''codeinsee'')
                       (py_or (get msg ''code-insee'') (PStr [])))))"

definition geo_of :: "pydict \<Rightarrow> string" where
  "geo_of msg = strip (py_str (py_or (get msg ''geo'') (PStr [])))"

text \<open>
  The first part of \<^verbatim>\<open>insert_row\<close>, up to the statement: the Record Mapper. It yields
  the parameters or raises one of four \<^verbatim>\<open>ValueError\<close>s, in the order of the source.
\<close>

definition record_mapper :: "pylib \<Rightarrow> pydict \<Rightarrow> exn + row" where
  "record_mapper lib msg =
     (if station_code_of msg = [] then Inl (ValueError ''station_code manquant'')
      else
        (case due_date_of lib msg of
           None \<Rightarrow> Inl (ValueError ''due_date/duedate manquant ou illisible'')
         | Some due_date' \<Rightarrow>
             let station_name' = py_or (get msg ''name'') (get msg ''station_name'');
                 commune' = py_or (get msg ''nom_arrondissement_communes'') (get msg ''commune'');
                 capacity' = to_int_or_none (get msg ''capacity'');
                 docks_available' = to_int_or_none
                   (py_or (get msg ''numdocksavailable'') (get msg ''docks_available''));
                 bikes_available' = to_int_or_none
                   (py_or (get msg ''numbikesavailable'') (get msg ''bikes_available''));
                 bikes_mechanical' = to_int_or_none
                   (py_or (get msg ''mechanical'') (get msg ''bikes_mechanical''));
                 bikes_ebike' = to_int_or_none
                   (py_or (get msg ''ebike'') (get msg ''bikes_ebike''));
                 is_installed' = to_int_or_none (get msg ''is_installed'');
                 is_returning' = to_int_or_none (get msg ''is_returning'')
             in if code_insee_of msg = [] then Inl (ValueError ''code_insee manquant'')
                else if geo_of msg = [] then Inl (ValueError ''geo manquant'')
                else Inr \<lparr>station_code = station_code_of msg, station_name = station_name',
                           commune = commune', capacity = capacity',
                           docks_available = docks_available',
                           bikes_available = bikes_available',
                           bikes_mechanical = bikes_mechanical',
                           bikes_ebike = bikes_ebike',
                           is_installed = is_installed', is_returning = is_returning',
                           due_date = due_date', code_insee = code_insee_of msg,
                           geo = geo_of msg\<rparr>))"

text \<open>
  The table \<^verbatim>\<open>velib_status\<close> is the list of its rows; its primary key is the pair
  \<^verbatim>\<open>(station_code, due_date)\<close>. A row holds the values it was sent, and two keys are
  the same when the values sent are equal.
\<close>

type_synonym table = "row list"

definition pkey :: "row \<Rightarrow> string \<times> datetime" where
  "pkey r = (station_code r, due_date r)"

text \<open>
  The statement \<^verbatim>\<open>INSERT ... ON DUPLICATE KEY UPDATE\<close>: a row whose key is new is added;
  otherwise the row that holds the key gets the eleven columns of the \<^verbatim>\<open>UPDATE\<close> list
  from the new values and keeps its key columns.
\<close>

definition on_duplicate_key_update :: "row \<Rightarrow> row \<Rightarrow> row" where
  "on_duplicate_key_update new old =
     old\<lparr>station_name := station_name new,
         commune := commune new,
         capacity := capacity new,
         docks_available := docks_available new,
         bikes_available := bikes_available new,
         bikes_mechanical := bikes_mechanical new,
         bikes_ebike := bikes_ebike new,
         is_installed := is_installed new,
         is_returning := is_returning new,
         code_insee := code_insee new,
         geo := geo new\<rparr>"

definition upsert :: "table \<Rightarrow> row \<Rightarrow> table" where
  "upsert t new =
     (if pkey new \<in> set (map pkey t)
      then map (\<lambda>old. if pkey old = pkey new then on_duplicate_key_update new old else old) t
      else t @ [new])"

text \<open>
  \<^verbatim>\<open>insert_row(conn, msg)\<close>: the table after the call, and the exception when one is
  raised. \<open>ack\<close> tells whether the store carries out the statement and its commit
  (\<open>True\<close>) or raises an error, leaving the table as it was. A payload that is no
  \<^verbatim>\<open>dict\<close> has no \<^verbatim>\<open>get\<close>.
\<close>

definition insert_row :: "pylib \<Rightarrow> bool \<Rightarrow> table \<Rightarrow> payload \<Rightarrow> table \<times> exn option" where
  "insert_row lib ack conn payload =
     (case payload of
        POther \<Rightarrow> (conn, Some AttributeError)
      | PObject msg \<Rightarrow>
          (case record_mapper lib msg of
             Inl e \<Rightarrow> (conn, Some e)
           | Inr params \<Rightarrow> if ack then (upsert conn params, None) else (conn, Some MySQLError)))"

subsection \<open>The loop of main\<close>

text \<open>
  What the consumer meets in one turn of \<^verbatim>\<open>for record in consumer\<close>: the message of the
  broker, with its offset and the bytes of its value (\<open>None\<close> for a message with a null
  value), the answer of the store to the write the message may lead to, and the answer
  of the broker to the \<^verbatim>\<open>consumer.commit()\<close> it may lead to. The deliveries are those
  of one partition, in the order of their offsets.
\<close>

record delivery =
  position :: nat
  raw :: "string option"
  store_ack :: bool
  commit_ack :: bool

text \<open>
  \<^verbatim>\<open>value_deserializer=lambda v: v.decode("utf-8")\<close>. The iterator applies it to the
  value of each message before it hands the record to the loop body; on a null value
  \<^verbatim>\<open>v.decode\<close> is an \<^verbatim>\<open>AttributeError\<close>.
\<close>

definition value_deserializer :: "pylib \<Rightarrow> string option \<Rightarrow> exn + string" where
  "value_deserializer lib v =
     (case v of
        None \<Rightarrow> Inl AttributeError
      | Some bytes \<Rightarrow>
          (case utf8_decode lib bytes of
             None \<Rightarrow> Inl UnicodeDecodeError
           | Some s \<Rightarrow> Inr s))"

text \<open>The record the loop body receives: the offset and the decoded value.\<close>

record kafka_record =
  offset :: nat
  val :: string

text \<open>The two lines the loop prints: the success line and the error line.\<close>

datatype log_line = Insere pyval nat | Erreur nat exn string

text \<open>
  The state the loop works on: the table behind \<^verbatim>\<open>mysql_conn\<close>, the positions the
  broker has accepted from \<^verbatim>\<open>consumer.commit()\<close> so far, and the lines printed so far.
  \<^verbatim>\<open>consumer.commit()\<close> takes no argument: it sends the position of the consumer, which
  is the offset after the record just read.
\<close>

record consumer_state =
  table_of :: table
  commits :: "nat list"
  printed :: "log_line list"

text \<open>
  The checkpoint of the consumer group: the position of the last accepted commit, from
  which the broker redelivers after a restart. Every record below it counts as
  processed.
\<close>

definition checkpoint :: "consumer_state \<Rightarrow> nat option" where
  "checkpoint st = (if commits st = [] then None else Some (last (commits st)))"

text \<open>
  The body of the loop, for a record and the answers of the store and of the broker:
  everything from \<^verbatim>\<open>json.loads\<close> to the success line is inside the \<^verbatim>\<open>try\<close>, so that a
  \<^verbatim>\<open>consumer.commit()\<close> that raises ends in the error line as well, with the row
  already written.
\<close>

definition main_step :: "pylib \<Rightarrow> kafka_record \<Rightarrow> bool \<Rightarrow> bool \<Rightarrow> consumer_state \<Rightarrow> consumer_state" where
  "main_step lib record stored committed st =
     (case json_loads lib (val record) of
        None \<Rightarrow> st\<lparr>printed := printed st @ [Erreur (offset record) JSONDecodeError (val record)]\<rparr>
      | Some payload \<Rightarrow>
          (case insert_row lib stored (table_of st) payload of
             (conn, Some e) \<Rightarrow>
               st\<lparr>table_of := conn,
                  printed := printed st @ [Erreur (offset record) e (val record)]\<rparr>
           | (conn, None) \<Rightarrow>
               if committed
               then st\<lparr>table_of := conn,
                       commits := commits st @ [offset record + 1],
                       printed := printed st @
                         [Insere (case payload of
                                    PObject msg \<Rightarrow>
                                      py_or (get msg ''station_code'') (get msg ''stationcode'')
                                  | POther \<Rightarrow> PNone)
                                 (offset record)]\<rparr>
               else st\<lparr>table_of := conn,
                       printed := printed st @
                         [Erreur (offset record) CommitFailedError (val record)]\<rparr>))"

text \<open>
  \<^verbatim>\<open>for record in consumer\<close> over the deliveries that arrive. The deserializer runs in
  the iterator, outside the \<^verbatim>\<open>try\<close>: when it raises, the exception leaves the loop and
  \<^verbatim>\<open>main\<close>, and the deliveries after it are not read. The result is the state reached
  and the exception that ended the loop; \<open>None\<close> when every delivery has been handled
  and the loop waits for the next one.
\<close>

fun main_loop :: "pylib \<Rightarrow> consumer_state \<Rightarrow> delivery list \<Rightarrow> consumer_state \<times> exn option" where
  "main_loop lib st [] = (st, None)"
| "main_loop lib st (d # ds) =
     (case value_deserializer lib (raw d) of
        Inl e \<Rightarrow> (st, Some e)
      | Inr v \<Rightarrow>
          main_loop lib
            (main_step lib \<lparr>offset = position d, val = v\<rparr> (store_ack d) (commit_ack d) st) ds)"

section \<open>Scenarios\<close>

text \<open>The raw row of the specification's scenario, under its five headers.\<close>

definition scenario_header :: "string list" where
  "scenario_header =
     [''Nom Station'', ''Identifiant station'', ''Capacit'' @ eacute # '' de la Station'',
      ''Station en fonctionnement'', ''Actualisation de la donn'' @ eacute # ''e'']"

definition scenario_row :: "string list" where
  "scenario_row = [''Gare'', ''101'', ''20.0'', ''OUI'', ''2026-01-22 10:00:00'']"

definition scenario_record :: pydict where
  "scenario_record =
     [(''station_code'', PStr ''101''), (''name'', PStr ''Gare''), (''is_installed'', PInt 1),
      (''capacity'', PInt 20), (''numdocksavailable'', PNone), (''numbikesavailable'', PNone),
      (''mechanical'', PNone), (''ebike'', PNone), (''is_returning'', PNone),
      (''due_date'', PStr ''2026-01-22 10:00:00''), (''commune'', PNone),
      (''code_insee'', PNone), (''geo'', PNone)]"

section \<open>Notions of the specification\<close>

text \<open>The thirteen fields of a canonical record, in the order of the specification.\<close>

definition canonical_fields :: "string list" where
  "canonical_fields =
     [''station_code'', ''name'', ''is_installed'', ''capacity'', ''numdocksavailable'',
      ''numbikesavailable'', ''mechanical'', ''ebike'', ''is_returning'', ''due_date'',
      ''commune'', ''code_insee'', ''geo'']"

text \<open>
  The cells of a data row by column of the header: \<open>None\<close> for a column the row stops
  before. A cell beyond the last header has no column.
\<close>

definition cells :: "string list \<Rightarrow> string list \<Rightarrow> string option list" where
  "cells fieldnames row =
     take (length fieldnames) (map Some row @ replicate (length fieldnames - length row) None)"

text \<open>
  A header that stands over several columns counts once, at its first column, and its
  cell is the one of its last column.
\<close>

definition first_columns :: "string list \<Rightarrow> string list" where
  "first_columns fieldnames = rev (remdups (rev fieldnames))"

definition cell_of :: "string list \<Rightarrow> string list \<Rightarrow> string \<Rightarrow> string option" where
  "cell_of fieldnames row header =
     (case map_of (rev (zip fieldnames (cells fieldnames row))) header of
        None \<Rightarrow> None
      | Some c \<Rightarrow> c)"

text \<open>
  The resolved field of a data row: the stripped cell of the header whose normalized
  name is \<open>key\<close>, the last such header when several have that name; \<open>None\<close> when no
  header has that name or the row has no cell there.
\<close>

definition resolved :: "string list \<Rightarrow> string list \<Rightarrow> string \<Rightarrow> string option" where
  "resolved fieldnames row key =
     (let hs = filter (\<lambda>h. norm h = key) (first_columns fieldnames)
      in if hs = [] then None else map_option strip (cell_of fieldnames row (last hs)))"

text \<open>A cell, and a resolved field, as a value: \<^verbatim>\<open>None\<close> or a text.\<close>

definition cell_value :: "string option \<Rightarrow> pyval" where
  "cell_value c = (case c of None \<Rightarrow> PNone | Some s \<Rightarrow> PStr s)"

definition resolved_value :: "string list \<Rightarrow> string list \<Rightarrow> string \<Rightarrow> pyval" where
  "resolved_value fieldnames row key = cell_value (resolved fieldnames row key)"

text \<open>A resolved field is present and non-empty.\<close>

definition present :: "string option \<Rightarrow> bool" where
  "present c = (case c of None \<Rightarrow> False | Some s \<Rightarrow> s \<noteq> [])"

text \<open>
  The admission test of the Normalizer in the words of the specification: the resolved
  station code and the resolved observation date (under its accented or its plain
  header) are present and non-empty.
\<close>

definition admitted :: "string list \<Rightarrow> string list \<Rightarrow> bool" where
  "admitted fieldnames row =
     (present (resolved fieldnames row ''identifiant_station'')
      \<and> (present (resolved fieldnames row (''actualisation_de_la_donn'' @ eacute # ''e''))
         \<or> present (resolved fieldnames row ''actualisation_de_la_donnee'')))"

text \<open>
  The canonical record of a data row in the words of the specification: each of the
  thirteen fields is a resolved field of the row, passed through the Field Codec where
  it is a number or a yes or no; where a header has an accented and a plain spelling,
  the accented one is taken when its field is present and non-empty, the plain one
  otherwise.
\<close>

definition either_spelling :: "string list \<Rightarrow> string list \<Rightarrow> string \<Rightarrow> string \<Rightarrow> pyval" where
  "either_spelling fieldnames row accented plain =
     (if present (resolved fieldnames row accented) then resolved_value fieldnames row accented
      else resolved_value fieldnames row plain)"

definition canonical_record :: "string list \<Rightarrow> string list \<Rightarrow> pydict" where
  "canonical_record fs row =
     [(''station_code'', resolved_value fs row ''identifiant_station''),
      (''name'', resolved_value fs row ''nom_station''),
      (''is_installed'', to_bool01_fr (resolved_value fs row ''station_en_fonctionnement'')),
      (''capacity'', to_int (either_spelling fs row
         (''capacit'' @ eacute # ''_de_la_station'') ''capacite_de_la_station'')),
      (''numdocksavailable'', to_int (resolved_value fs row ''nombre_bornettes_libres'')),
      (''numbikesavailable'', to_int (either_spelling fs row
         (''nombre_total_v'' @ eacute # ''los_disponibles'') ''nombre_total_velos_disponibles'')),
      (''mechanical'', to_int (either_spelling fs row
         (''v'' @ eacute # ''los_m'' @ eacute # ''caniques_disponibles'')
         ''velos_mecaniques_disponibles'')),
      (''ebike'', to_int (either_spelling fs row
         (''v'' @ eacute # ''los_'' @ eacute # ''lectriques_disponibles'')
         ''velos_electriques_disponibles'')),
      (''is_returning'', to_bool01_fr (either_spelling fs row
         (''retour_v'' @ eacute # ''lib_possible'') ''retour_velib_possible'')),
      (''due_date'', either_spelling fs row
         (''actualisation_de_la_donn'' @ eacute # ''e'') ''actualisation_de_la_donnee''),
      (''commune'', either_spelling fs row
         (''nom_communes_'' @ eacute # ''quip'' @ eacute # ''es'') ''nom_communes_equipees''),
      (''code_insee'', either_spelling fs row
         (''code_insee_communes_'' @ eacute # ''quip'' @ eacute # ''es'')
         ''code_insee_communes_equipees''),
      (''geo'', either_spelling fs row
         (''coordonn'' @ eacute # ''es_g'' @ eacute # ''ographiques'')
         ''coordonnees_geographiques'')]"

text \<open>
  Three headers of which the first two have one normalized name, and two rows that
  differ in which of the two columns holds the station code.
\<close>

definition twin_header :: "string list" where
  "twin_header = [''Identifiant station'', ''identifiant station'', ''Actualisation de la donnee'']"

definition twin_row_last :: "string list" where
  "twin_row_last = ['''', ''101'', ''2026-01-22 10:00:00'']"

definition twin_row_first :: "string list" where
  "twin_row_first = [''101'', '''', ''2026-01-22 10:00:00'']"

text \<open>
  A file whose two rows are admitted with no INSEE code and no coordinates: the first
  row has empty cells there, the second row stops before them.
\<close>

definition sparse_lines :: "string list list" where
  "sparse_lines =
     [[''Identifiant station'', ''Actualisation de la donnee'',
       ''Code INSEE communes equipees'', ''Coordonnees geographiques''],
      [''101'', ''2026-01-22 10:00:00'', '''', ''''],
      [''102'', ''2026-01-22 10:05:00'']]"

definition sparse_record :: "string \<Rightarrow> string \<Rightarrow> pyval \<Rightarrow> pydict" where
  "sparse_record code date missing =
     [(''station_code'', PStr code), (''name'', PNone), (''is_installed'', PNone),
      (''capacity'', PNone), (''numdocksavailable'', PNone), (''numbikesavailable'', PNone),
      (''mechanical'', PNone), (''ebike'', PNone), (''is_returning'', PNone),
      (''due_date'', PStr date), (''commune'', PNone),
      (''code_insee'', missing), (''geo'', missing)]"

text \<open>
  Alias resolution in the words of the specification, with the empty text counted as
  no value: the value of the first key of the list that is present with a value other
  than \<^verbatim>\<open>None\<close> and the empty text, and \<open>dflt\<close> when the list has no such key.
\<close>

fun first_nonempty :: "pydict \<Rightarrow> string list \<Rightarrow> pyval \<Rightarrow> pyval" where
  "first_nonempty msg [] dflt = dflt"
| "first_nonempty msg (k # ks) dflt =
     (if get msg k \<noteq> PNone \<and> get msg k \<noteq> PStr [] then get msg k
      else first_nonempty msg ks dflt)"


subsection \<open>A sample of the library and of the stream\<close>

text \<open>
  The instant of the scenarios, and library functions that give, on the few texts the
  scenarios below use, what the interpreter gives, and refuse every other text (the
  decoder: every value with a byte above 127). They serve to instantiate theorems that
  hold for every library, and to run the loop on concrete deliveries.
\<close>

definition sample_datetime :: datetime where
  "sample_datetime =
     \<lparr>year = 2026, month = 1, day = 22, hour = 10, minute = 0, second = 0, microsecond = 0,
      tzinfo = None\<rparr>"

definition message_text :: string where
  \<open>message_text =
     ''{"stationcode":"101","duedate":"2026-01-22T10:00:00Z","code_insee":"75056","geo":"48.85,2.35"}''\<close>

definition message :: pydict where
  "message =
     [(''stationcode'', PStr ''101''), (''duedate'', PStr ''2026-01-22T10:00:00Z''),
      (''code_insee'', PStr ''75056''), (''geo'', PStr ''48.85,2.35'')]"

definition message_no_insee_text :: string where
  \<open>message_no_insee_text =
     ''{"stationcode":"101","duedate":"2026-01-22T10:00:00Z","geo":"48.85,2.35"}''\<close>

definition message_no_insee :: pydict where
  "message_no_insee =
     [(''stationcode'', PStr ''101''), (''duedate'', PStr ''2026-01-22T10:00:00Z''),
      (''geo'', PStr ''48.85,2.35'')]"

definition sample_lib :: pylib where
  "sample_lib =
     \<lparr>fromisoformat = (\<lambda>s.
        if s = ''2026-01-22T10:00:00+00:00'' then Some (sample_datetime\<lparr>tzinfo := Some 0\<rparr>)
        else if s = ''2026-01-22 10:00:00'' then Some sample_datetime
        else None),
      strptime = (\<lambda>s fmt.
        if s = ''2026-01-22 10:00:00'' \<and> fmt = ''%Y-%m-%d %H:%M:%S'' then Some sample_datetime
        else if s = ''2026-1-22 10:00:00'' \<and> fmt = ''%Y-%m-%d %H:%M:%S'' then Some sample_datetime
        else if s = ''2026-1-22 10:00'' \<and> fmt = ''%Y-%m-%d %H:%M'' then Some sample_datetime
        else None),
      json_loads = (\<lambda>s.
        if s = message_text then Some (PObject message)
        else if s = message_no_insee_text then Some (PObject message_no_insee)
        else if s = ''[]'' then Some POther
        else None),
      utf8_decode = (\<lambda>bytes.
        if list_all (\<lambda>c. of_char c < (128 :: int)) bytes then Some bytes else None)\<rparr>"

text \<open>The row the scenario message maps to, with the columns it leaves unknown.\<close>

definition message_row :: row where
  "message_row =
     \<lparr>station_code = ''101'', station_name = PNone, commune = PNone, capacity = PNone,
      docks_available = PNone, bikes_available = PNone, bikes_mechanical = PNone,
      bikes_ebike = PNone, is_installed = PNone, is_returning = PNone,
      due_date = sample_datetime, code_insee = ''75056'', geo = ''48.85,2.35''\<rparr>"


text \<open>
  Two deliveries that fail inside the loop body, the scenario message while the store
  refuses the write and the message without its INSEE code, and the delivery of the
  scenario message that follows them, which the store and the broker accept.
\<close>

definition failed_deliveries :: "delivery list" where
  "failed_deliveries =
     [\<lparr>position = 0, raw = Some message_text, store_ack = False, commit_ack = True\<rparr>,
      \<lparr>position = 1, raw = Some message_no_insee_text, store_ack = True, commit_ack = True\<rparr>]"

definition next_delivery :: delivery where
  "next_delivery =
     \<lparr>position = 2, raw = Some message_text, store_ack = True, commit_ack = True\<rparr>"

text \<open>A message whose value is no UTF-8 text, followed by the scenario message.\<close>

definition undecodable_deliveries :: "delivery list" where
  "undecodable_deliveries =
     [\<lparr>position = 0, raw = Some [CHR 0xFF], store_ack = True, commit_ack = True\<rparr>,
      \<lparr>position = 1, raw = Some message_text, store_ack = True, commit_ack = True\<rparr>]"

text \<open>The scenario message, stored, while the broker refuses the commit.\<close>

definition uncommitted_delivery :: delivery where
  "uncommitted_delivery =
     \<lparr>position = 0, raw = Some message_text, store_ack = True, commit_ack = False\<rparr>"

definition initial_state :: consumer_state where
  "initial_state = \<lparr>table_of = [], commits = [], printed = []\<rparr>"

text \<open>The scenario message with a name and a capacity, and the row it maps to.\<close>

definition message_full :: pydict where
  "message_full = message @ [(''name'', PStr ''Gare''), (''capacity'', PInt 20)]"

definition message_full_row :: row where
  "message_full_row = message_row\<lparr>station_name := PStr ''Gare'', capacity := PInt 20\<rparr>"

section \<open>Auxiliary facts on texts and numbers\<close>

subsection \<open>Rounding is exact on small integers\<close>

lemma bit_length_le: "n < 2 ^ j \<Longrightarrow> bit_length n \<le> int j"
proof (induction j arbitrary: n)
  case 0
  then show ?case by (simp add: bit_length.simps)
next
  case (Suc j)
  show ?case
  proof (cases "n \<le> 0")
    case True
    then show ?thesis by (simp add: bit_length.simps)
  next
    case False
    from Suc.prems have "n div 2 < 2 ^ j" by simp
    then have "bit_length (n div 2) \<le> int j" by (rule Suc.IH)
    with False show ?thesis by (subst bit_length.simps) simp
  qed
qed

lemma bit_length_one: "bit_length 1 = 1"
  by (simp add: bit_length.simps)

lemma int_of_float_scaled:
  "x \<le> 0 \<Longrightarrow> 0 \<le> n \<Longrightarrow>
   int_of_float (Finite neg (n * 2 ^ nat (- x)) x) = Some (if neg then - n else n)"
  by (cases "x = 0") (auto simp: Let_def)

lemma round_double_exact:
  assumes "0 \<le> n" "n < 2 ^ 53"
  shows "int_of_float (round_double neg n 1) = Some (if neg then - n else n)"
proof (cases "n = 0")
  case True
  then show ?thesis by (simp add: round_double_def)
next
  case False
  define k where "k = bit_length n - bit_length 1"
  define e where "e = (if ge_pow2 n 1 k then k else k - 1)"
  define x where "x = max e (- 1022) - 52"
  have "bit_length n \<le> 53" using bit_length_le [OF assms(2)] by simp
  then have "k \<le> 52" by (simp add: k_def bit_length_one)
  then have "e \<le> 52" by (simp add: e_def)
  then have x: "x \<le> 0" by (simp add: x_def)
  have rd: "round_double neg n 1 = Finite neg (n * 2 ^ nat (- x)) x"
  proof (cases "x < 0")
    case True
    then show ?thesis using False
      unfolding round_double_def k_def [symmetric] Let_def e_def [symmetric] x_def [symmetric]
      by simp
  next
    case False
    with x have "x = 0" by simp
    then show ?thesis using \<open>n \<noteq> 0\<close>
      unfolding round_double_def k_def [symmetric] Let_def e_def [symmetric] x_def [symmetric]
      by simp
  qed
  show ?thesis unfolding rd using x assms(1) by (rule int_of_float_scaled)
qed

subsection \<open>Stripping\<close>

lemma dropWhile_both_ends:
  assumes "s \<noteq> []" "\<not> P (hd s)" "\<not> P (last s)"
  shows "rev (dropWhile P (rev (dropWhile P s))) = s"
proof -
  have "dropWhile P s = s" using assms(2) by (simp add: dropWhile_eq_self_iff)
  moreover have "dropWhile P (rev s) = rev s"
    using assms(1,3) by (simp add: dropWhile_eq_self_iff hd_rev)
  ultimately show ?thesis by simp
qed

lemma strip_unchanged:
  "s \<noteq> [] \<Longrightarrow> \<not> py_isspace (hd s) \<Longrightarrow> \<not> py_isspace (last s) \<Longrightarrow> strip s = s"
  unfolding strip_def by (rule dropWhile_both_ends)

lemma num_strip_unchanged:
  "s \<noteq> [] \<Longrightarrow> \<not> num_isspace (hd s) \<Longrightarrow> \<not> num_isspace (last s) \<Longrightarrow> num_strip s = s"
  unfolding num_strip_def by (rule dropWhile_both_ends)

lemma num_isspace_py_isspace: "num_isspace c \<Longrightarrow> py_isspace c"
  by (auto simp: num_isspace_def py_isspace_def Let_def)

lemma dropWhile_all_Nil: "(\<forall>x \<in> set (dropWhile P s). P x) \<longleftrightarrow> dropWhile P s = []"
proof
  assume all: "\<forall>x \<in> set (dropWhile P s). P x"
  show "dropWhile P s = []"
  proof (rule ccontr)
    assume ne: "dropWhile P s \<noteq> []"
    then have "\<not> P (hd (dropWhile P s))" by (rule hd_dropWhile)
    moreover from ne have "hd (dropWhile P s) \<in> set (dropWhile P s)" by simp
    ultimately show False using all by blast
  qed
qed (auto dest: set_dropWhileD)

lemma strip_Nil_iff: "strip s = [] \<longleftrightarrow> list_all py_isspace s"
proof -
  have "strip s = [] \<longleftrightarrow> (\<forall>x \<in> set (dropWhile py_isspace s). py_isspace x)"
    by (simp add: strip_def)
  also have "\<dots> \<longleftrightarrow> dropWhile py_isspace s = []" by (rule dropWhile_all_Nil)
  also have "\<dots> \<longleftrightarrow> list_all py_isspace s" by (simp add: list_all_iff)
  finally show ?thesis .
qed

subsection \<open>Digits\<close>

lemma is_digit_not_space: "is_digit c \<Longrightarrow> \<not> py_isspace c"
  by (auto simp: is_digit_def py_isspace_def Let_def)

lemma is_digit_not_sign: "is_digit c \<Longrightarrow> c \<noteq> CHR ''-'' \<and> c \<noteq> CHR ''+'' \<and> c \<noteq> CHR ''_''"
  by (auto simp: is_digit_def Let_def)

lemma is_digit_lower: "is_digit c \<Longrightarrow> lower_char c = c"
  by (auto simp: is_digit_def lower_char_def Let_def)

lemma py_isspace_not_sign: "py_isspace c \<Longrightarrow> c \<noteq> CHR ''-'' \<and> c \<noteq> CHR ''+'' \<and> c \<noteq> CHR ''_''"
  by (auto simp: py_isspace_def Let_def)

lemma digit_val_bounds:
  assumes "is_digit c"
  shows "0 \<le> digit_val c \<and> digit_val c \<le> 9"
proof -
  have "(of_char c :: int) = int (of_char c)" by (simp add: of_nat_of_char)
  then show ?thesis using assms by (simp add: is_digit_def digit_val_def Let_def)
qed

lemma foldl_digits_bounds:
  "list_all is_digit ds \<Longrightarrow> 0 \<le> a \<Longrightarrow>
   0 \<le> foldl (\<lambda>a c. 10 * a + digit_val c) a ds
   \<and> foldl (\<lambda>a c. 10 * a + digit_val c) a ds < (a + 1) * 10 ^ length ds"
proof (induction ds arbitrary: a)
  case Nil
  then show ?case by simp
next
  case (Cons c ds)
  from Cons.prems have c: "0 \<le> digit_val c" "digit_val c \<le> 9" and ds: "list_all is_digit ds"
    using digit_val_bounds by auto
  from c Cons.prems(2) have a': "0 \<le> 10 * a + digit_val c" by simp
  note ih = Cons.IH [OF ds a']
  let ?r = "foldl (\<lambda>a c. 10 * a + digit_val c) (10 * a + digit_val c) ds"
  have "?r < (10 * a + digit_val c + 1) * 10 ^ length ds" using ih by simp
  also have "\<dots> \<le> (10 * a + 10) * 10 ^ length ds"
    using c by (intro mult_right_mono) auto
  also have "\<dots> = (a + 1) * 10 ^ length (c # ds)" by (simp add: algebra_simps)
  finally have "?r < (a + 1) * 10 ^ length (c # ds)" .
  moreover have "0 \<le> ?r" using ih by simp
  ultimately show ?case by simp
qed

lemma digits_val_bounds:
  "list_all is_digit ds \<Longrightarrow> 0 \<le> digits_val ds \<and> digits_val ds < 10 ^ length ds"
  using foldl_digits_bounds [of ds 0] by (simp add: digits_val_def)

lemma digits_val_small:
  assumes "list_all is_digit ds" "length ds \<le> 15"
  shows "0 \<le> digits_val ds \<and> digits_val ds < 2 ^ 53"
proof -
  have "(10::int) ^ length ds \<le> 10 ^ 15"
    using assms(2) by (intro power_increasing) auto
  also have "\<dots> < 2 ^ 53" by simp
  finally show ?thesis using digits_val_bounds [OF assms(1)] by simp
qed

subsection \<open>Underscores\<close>

lemma underscores_ok_none:
  "CHR ''_'' \<notin> set s \<Longrightarrow> p \<noteq> Some CHR ''_'' \<Longrightarrow> underscores_ok p s"
  by (induction s arbitrary: p) auto

lemma drop_underscores_none: "CHR ''_'' \<notin> set s \<Longrightarrow> drop_underscores s = Some s"
  by (auto simp: drop_underscores_def underscores_ok_none filter_id_conv)

lemma digits_no_underscore: "list_all is_digit ds \<Longrightarrow> CHR ''_'' \<notin> set ds"
  using is_digit_not_sign by (auto simp: list_all_iff)

subsection \<open>The conversions on a run of digits\<close>

lemma parse_decimal_digits:
  assumes "ds \<noteq> []" "list_all is_digit ds"
  shows "parse_decimal ds = Some (digits_val ds, 0)"
proof -
  have tw: "takeWhile is_digit ds = ds" and dw: "dropWhile is_digit ds = []"
    using assms(2) by (simp_all add: list_all_iff)
  show ?thesis unfolding parse_decimal_def tw dw using assms(1) by simp
qed

lemma lower_digits: "list_all is_digit ds \<Longrightarrow> lower ds = ds"
  by (simp add: lower_def list_all_iff map_idI is_digit_lower)

lemma digits_not_word:
  assumes "ds \<noteq> []" "list_all is_digit ds"
  shows "ds \<noteq> ''inf'' \<and> ds \<noteq> ''infinity'' \<and> ds \<noteq> ''nan''"
proof -
  from assms have "is_digit (hd ds)" by (cases ds) auto
  moreover have "\<not> is_digit CHR ''i''" "\<not> is_digit CHR ''n''" by (simp_all add: is_digit_def)
  ultimately show ?thesis by auto
qed

lemma float_of_digits:
  assumes "ds \<noteq> []" "list_all is_digit ds" "num_strip t = t" "CHR ''_'' \<notin> set t"
    "split_sign t = (neg, ds)"
  shows "float_of_str t = Some (round_double neg (digits_val ds) 1)"
  using assms digits_not_word [OF assms(1,2)]
  by (simp add: float_of_str_def drop_underscores_none lower_digits parse_decimal_digits)

lemma int_of_digits:
  assumes "ds \<noteq> []" "list_all is_digit ds" "length ds \<le> 15" "num_strip t = t"
    "split_sign t = (neg, ds)"
  shows "int_of_str t = Some (if neg then - digits_val ds else digits_val ds)"
  using assms
  by (simp add: int_of_str_def drop_underscores_none digits_no_underscore int_max_str_digits_def)

lemma to_int_digits:
  assumes "ds \<noteq> []" "list_all is_digit ds" "length ds \<le> 15" "strip t = t" "num_strip t = t"
    "CHR ''_'' \<notin> set t" "split_sign t = (neg, ds)"
  shows "to_int (PStr t) = PInt (if neg then - digits_val ds else digits_val ds)"
proof -
  from assms(1,7) have "t \<noteq> []" by auto
  moreover have "int_of_float (round_double neg (digits_val ds) 1)
      = Some (if neg then - digits_val ds else digits_val ds)"
    using digits_val_small [OF assms(2,3)] by (intro round_double_exact) auto
  ultimately show ?thesis
    using assms by (simp add: to_int_def float_of_digits)
qed

lemma to_int_or_none_digits:
  assumes "ds \<noteq> []" "list_all is_digit ds" "length ds \<le> 15" "num_strip t = t"
    "split_sign t = (neg, ds)"
  shows "to_int_or_none (PStr t) = PInt (if neg then - digits_val ds else digits_val ds)"
  using int_of_digits [OF assms] by (simp add: to_int_or_none_def)

text \<open>A run of digits, bare or behind a sign, is a text neither conversion strips.\<close>

lemma signed_digits_shape:
  assumes "ds \<noteq> []" "list_all is_digit ds" "t = ds \<or> t = CHR ''-'' # ds \<or> t = CHR ''+'' # ds"
  shows "strip t = t \<and> num_strip t = t \<and> CHR ''_'' \<notin> set t
         \<and> split_sign t = (t = CHR ''-'' # ds, ds)"
proof -
  from assms(1,2) have hd: "is_digit (hd ds)" and lst: "is_digit (last ds)"
    by (auto simp: list_all_iff)
  have t: "t \<noteq> []" using assms by auto
  have last_t: "last t = last ds" using assms by auto
  have hd_t: "\<not> py_isspace (hd t)"
    using assms(3) is_digit_not_space [OF hd] by (auto simp: py_isspace_def)
  have l: "\<not> py_isspace (last t)" using is_digit_not_space [OF lst] last_t by simp
  have s1: "strip t = t" using t hd_t l by (rule strip_unchanged)
  have s2: "num_strip t = t"
    using t hd_t l num_isspace_py_isspace by (intro num_strip_unchanged) auto
  have u: "CHR ''_'' \<notin> set t" using assms(3) digits_no_underscore [OF assms(2)] by auto
  have sp: "split_sign t = (t = CHR ''-'' # ds, ds)"
    using assms(1,3) is_digit_not_sign [OF hd] by (cases ds) auto
  from s1 s2 u sp show ?thesis by simp
qed

subsection \<open>Blank texts\<close>

lemma blank_num_strip: "list_all py_isspace s \<Longrightarrow> list_all py_isspace (num_strip s)"
  unfolding num_strip_def list_all_iff
  by (auto dest!: set_dropWhileD)

lemma blank_int_of_str:
  assumes "list_all py_isspace s"
  shows "int_of_str s = None"
proof -
  define b where "b = num_strip s"
  have b: "list_all py_isspace b" unfolding b_def using assms by (rule blank_num_strip)
  have sp: "split_sign b = (False, b)"
    using b py_isspace_not_sign by (cases b) auto
  have "CHR ''_'' \<notin> set b" using b py_isspace_not_sign by (auto simp: list_all_iff)
  then have du: "drop_underscores b = Some b" by (rule drop_underscores_none)
  have "b = [] \<or> \<not> list_all is_digit b"
    using b is_digit_not_space by (cases b) auto
  then show ?thesis
    unfolding int_of_str_def b_def [symmetric] by (auto simp: sp du)
qed

lemma to_int_result: "to_int x = PNone \<or> (\<exists>i. to_int x = PInt i)"
  by (auto simp: to_int_def Let_def split: option.splits)

lemma to_int_or_none_result: "to_int_or_none x = PNone \<or> (\<exists>i. to_int_or_none x = PInt i)"
  by (auto simp: to_int_or_none_def split: option.splits)

section \<open>Properties of the two integer conversions\<close>

text \<open>
  C3 (as stated, refuted). The claim makes \<^verbatim>\<open>to_int_or_none\<close> of the Consumer the same
  function as \<^verbatim>\<open>to_int\<close> of the Normalizer, both yielding 12 on the text 12.0. On that
  text \<^verbatim>\<open>to_int\<close> yields 12, through \<^verbatim>\<open>float\<close>, and \<^verbatim>\<open>to_int_or_none\<close> yields
  \<^verbatim>\<open>None\<close>, since \<^verbatim>\<open>int\<close> refuses a text with a decimal point.
\<close>

theorem to_int_or_none_decimal_text:
  "to_int (PStr ''12.0'') = PInt 12
   \<and> to_int_or_none (PStr ''12.0'') = PNone
   \<and> to_int_or_none (PStr ''12.0'') \<noteq> to_int (PStr ''12.0'')"
  by code_simp

text \<open>
  C3 (amended). The two conversions agree where no decimal point or exponent is
  involved: both yield \<^verbatim>\<open>None\<close> for \<^verbatim>\<open>None\<close> and for a text that is empty once
  stripped; both yield the integer for a text of one to fifteen decimal digits, bare or
  behind a sign; and neither yields anything but \<^verbatim>\<open>None\<close> or an integer (an
  exception is no result of either function): \<^verbatim>\<open>to_int\<close> on every text,
  \<^verbatim>\<open>to_int_or_none\<close> on every value.
\<close>

theorem int_conversions_agree:
  "to_int PNone = PNone \<and> to_int_or_none PNone = PNone
   \<and> (strip s = [] \<longrightarrow> to_int (PStr s) = PNone \<and> to_int_or_none (PStr s) = PNone)
   \<and> (ds \<noteq> [] \<and> list_all is_digit ds \<and> length ds \<le> 15
        \<and> (t = ds \<or> t = CHR ''-'' # ds \<or> t = CHR ''+'' # ds)
      \<longrightarrow> to_int (PStr t) = PInt (if t = CHR ''-'' # ds then - digits_val ds else digits_val ds)
          \<and> to_int_or_none (PStr t) = to_int (PStr t))
   \<and> (to_int (PStr u) = PNone \<or> (\<exists>i. to_int (PStr u) = PInt i))
   \<and> (to_int_or_none x = PNone \<or> (\<exists>i. to_int_or_none x = PInt i))"
proof -
  have absent: "to_int PNone = PNone \<and> to_int_or_none PNone = PNone"
    by (simp add: to_int_def to_int_or_none_def)
  have blank: "to_int (PStr s) = PNone \<and> to_int_or_none (PStr s) = PNone" if "strip s = []"
  proof -
    from that have "list_all py_isspace s" by (simp add: strip_Nil_iff)
    then have "int_of_str s = None" by (rule blank_int_of_str)
    with that show ?thesis by (simp add: to_int_def to_int_or_none_def)
  qed
  have digits: "to_int (PStr t) = PInt (if t = CHR ''-'' # ds then - digits_val ds else digits_val ds)
      \<and> to_int_or_none (PStr t) = to_int (PStr t)"
    if "ds \<noteq> []" "list_all is_digit ds" "length ds \<le> 15"
      "t = ds \<or> t = CHR ''-'' # ds \<or> t = CHR ''+'' # ds"
  proof -
    from signed_digits_shape [OF that(1,2,4)]
    have sh: "strip t = t" "num_strip t = t" "CHR ''_'' \<notin> set t"
      "split_sign t = (t = CHR ''-'' # ds, ds)"
      by simp_all
    from to_int_digits [OF that(1,2,3) sh] to_int_or_none_digits [OF that(1,2,3) sh(2,4)]
    show ?thesis by simp
  qed
  from absent blank digits to_int_result [of "PStr u"] to_int_or_none_result [of x]
  show ?thesis by blast
qed

theorem int_conversions_agree_witness:
  "to_int (PStr ''  '') = PNone \<and> to_int_or_none (PStr ''  '') = PNone
   \<and> to_int (PStr ''-42'') = PInt (- 42) \<and> to_int_or_none (PStr ''-42'') = PInt (- 42)"
proof -
  have blank: "strip ''  '' = []" by code_simp
  have digits: "''42'' \<noteq> [] \<and> list_all is_digit ''42'' \<and> length ''42'' \<le> 15
      \<and> (''-42'' = ''42'' \<or> ''-42'' = CHR ''-'' # ''42'' \<or> ''-42'' = CHR ''+'' # ''42'')"
    by (simp add: is_digit_def)
  have val: "digits_val ''42'' = 42" by code_simp
  from int_conversions_agree [of "''  ''" "''42''" "''-42''" "[]" PNone] blank digits val
  show ?thesis by simp
qed

section \<open>Auxiliary facts on the Normalizer\<close>

subsection \<open>Stripping twice\<close>

lemma strip_ends:
  assumes "strip s \<noteq> []"
  shows "\<not> py_isspace (hd (strip s)) \<and> \<not> py_isspace (last (strip s))"
proof -
  define a where "a = dropWhile py_isspace s"
  define b where "b = dropWhile py_isspace (rev a)"
  have t: "strip s = rev b" by (simp add: strip_def a_def b_def)
  with assms have b: "b \<noteq> []" by simp
  then have "\<not> py_isspace (hd b)" unfolding b_def by (rule hd_dropWhile)
  then have l: "\<not> py_isspace (last (strip s))" using b by (simp add: t last_rev)
  have "rev a = takeWhile py_isspace (rev a) @ b" by (simp add: b_def)
  then have "rev (rev a) = rev (takeWhile py_isspace (rev a) @ b)" by simp
  then have a: "a = rev b @ rev (takeWhile py_isspace (rev a))" by simp
  from b have "rev b \<noteq> []" by simp
  with a have "hd a = hd (rev b)" by (metis hd_append2)
  moreover from a b have "a \<noteq> []" by auto
  then have "\<not> py_isspace (hd a)" unfolding a_def by (rule hd_dropWhile)
  ultimately have "\<not> py_isspace (hd (strip s))" by (simp add: t)
  with l show ?thesis by simp
qed

lemma strip_strip: "strip (strip s) = strip s"
proof (cases "strip s = []")
  case True
  have "strip [] = []" by (simp add: strip_def)
  with True show ?thesis by simp
next
  case False
  with strip_ends [OF False] show ?thesis by (intro strip_unchanged) simp_all
qed

subsection \<open>The dictionary of a row\<close>

lemma set_update_subset: "set (AList.update k v al) \<subseteq> insert (k, v) (set al)"
  by (induction al) auto

lemma fold_update_keys:
  "fst ` set (fold (\<lambda>(k, v). AList.update k (f v)) xs al) \<subseteq> fst ` set xs \<union> fst ` set al"
proof (induction xs arbitrary: al)
  case Nil
  then show ?case by simp
next
  case (Cons x xs)
  obtain k v where x: "x = (k, v)" by (cases x)
  have "fst ` set (fold (\<lambda>(k, v). AList.update k (f v)) xs (AList.update k (f v) al))
      \<subseteq> fst ` set xs \<union> fst ` set (AList.update k (f v) al)"
    by (rule Cons.IH)
  then show ?case by (auto simp: x AList.dom_update)
qed

lemma fold_update_values:
  "snd ` set (fold (\<lambda>(k, v). AList.update k (f v)) xs al) \<subseteq> f ` snd ` set xs \<union> snd ` set al"
proof (induction xs arbitrary: al)
  case Nil
  then show ?case by simp
next
  case (Cons x xs)
  obtain k v where x: "x = (k, v)" by (cases x)
  have "snd ` set (fold (\<lambda>(k, v). AList.update k (f v)) xs (AList.update k (f v) al))
      \<subseteq> f ` snd ` set xs \<union> snd ` set (AList.update k (f v) al)"
    by (rule Cons.IH)
  moreover have "snd ` set (AList.update k (f v) al) \<subseteq> insert (f v) (snd ` set al)"
    using set_update_subset [of k "f v" al] by force
  ultimately have "snd ` set (fold (\<lambda>(k, v). AList.update k (f v)) xs (AList.update k (f v) al))
      \<subseteq> insert (f v) (f ` snd ` set xs \<union> snd ` set al)"
    by blast
  then show ?case by (simp add: x)
qed

lemma fold_update_const:
  "fold (\<lambda>k. AList.update k c) ks al = fold (\<lambda>(k, v). AList.update k ((\<lambda>_. c) v)) (map (\<lambda>k. (k, c)) ks) al"
  by (induction ks arbitrary: al) auto

lemma dictreader_row_keys: "fst ` set (fst (dictreader_row fs row)) \<subseteq> set fs"
proof -
  let ?d = "fold (\<lambda>(k, v). AList.update k (PStr v)) (zip fs row) []"
  have "fst ` set (zip fs row) \<subseteq> set fs" by (auto dest: set_zip_leftD)
  with fold_update_keys [of PStr "zip fs row" "[]"] have d: "fst ` set ?d \<subseteq> set fs"
    by simp
  have "fst ` set (fold (\<lambda>k. AList.update k PNone) (drop (length row) fs) ?d) \<subseteq> set fs"
  proof -
    have "fst ` set (map (\<lambda>k. (k, PNone)) (drop (length row) fs)) \<subseteq> set fs"
      by (auto dest: in_set_dropD)
    with fold_update_keys [of "\<lambda>_. PNone" "map (\<lambda>k. (k, PNone)) (drop (length row) fs)" ?d] d
    show ?thesis unfolding fold_update_const by blast
  qed
  with d show ?thesis by (simp add: dictreader_row_def Let_def)
qed

lemma dictreader_row_values:
  "(k, v) \<in> set (fst (dictreader_row fs row)) \<Longrightarrow> v = PNone \<or> (\<exists>s. v = PStr s)"
proof -
  let ?d = "fold (\<lambda>(k, v). AList.update k (PStr v)) (zip fs row) []"
  have d: "snd ` set ?d \<subseteq> range PStr"
    using fold_update_values [of PStr "zip fs row" "[]"] by auto
  have "snd ` set (fold (\<lambda>k. AList.update k PNone) (drop (length row) fs) ?d)
      \<subseteq> insert PNone (range PStr)"
    unfolding fold_update_const
    using fold_update_values [of "\<lambda>_. PNone" "map (\<lambda>k. (k, PNone)) (drop (length row) fs)" ?d] d
    by auto
  with d have "snd ` set (fst (dictreader_row fs row)) \<subseteq> insert PNone (range PStr)"
    by (auto simp: dictreader_row_def Let_def)
  moreover assume "(k, v) \<in> set (fst (dictreader_row fs row))"
  then have "v \<in> snd ` set (fst (dictreader_row fs row))" by force
  ultimately show ?thesis by auto
qed

subsection \<open>The inner loop\<close>

lemma map_of_mapping:
  "k \<in> set fs \<Longrightarrow> map_of (map (\<lambda>c. (c, norm c)) fs) k = Some (norm k)"
  by (induction fs) auto

lemma build_r_total:
  "fst ` set items \<subseteq> set fs \<Longrightarrow> \<exists>r'. build_r (map (\<lambda>c. (c, norm c)) fs) items r = Inr r'"
proof (induction items arbitrary: r)
  case Nil
  then show ?case by simp
next
  case (Cons x items)
  obtain k v where x: "x = (k, v)" by (cases x)
  with Cons.prems have "k \<in> set fs" "fst ` set items \<subseteq> set fs" by auto
  with Cons.IH show ?case by (simp add: x map_of_mapping)
qed

text \<open>A value of \<^verbatim>\<open>r\<close> is \<^verbatim>\<open>None\<close> or a stripped text.\<close>

lemma build_r_values:
  assumes "build_r mp items r = Inr r'"
    and "\<forall>(k, v) \<in> set items. v = PNone \<or> (\<exists>s. v = PStr s)"
    and "\<forall>(k, v) \<in> set r. v = PNone \<or> (\<exists>s. v = PStr (strip s))"
  shows "\<forall>(k, v) \<in> set r'. v = PNone \<or> (\<exists>s. v = PStr (strip s))"
  using assms
proof (induction items arbitrary: r)
  case Nil
  then show ?case by simp
next
  case (Cons x items)
  obtain k v where x: "x = (k, v)" by (cases x)
  from Cons.prems(1) x obtain nk where nk: "map_of mp k = Some nk"
    and rest: "build_r mp items
        (AList.update nk (case v of PStr s \<Rightarrow> PStr (strip s) | _ \<Rightarrow> v) r) = Inr r'"
    by (auto split: option.splits)
  define v' where "v' = (case v of PStr s \<Rightarrow> PStr (strip s) | _ \<Rightarrow> v)"
  from Cons.prems(2) x have "v = PNone \<or> (\<exists>s. v = PStr s)" by auto
  then have v': "v' = PNone \<or> (\<exists>s. v' = PStr (strip s))" by (auto simp: v'_def)
  have "\<forall>(k, v) \<in> set (AList.update nk v' r). v = PNone \<or> (\<exists>s. v = PStr (strip s))"
    using set_update_subset [of nk v' r] v' Cons.prems(3) by blast
  moreover from Cons.prems(2) have "\<forall>(k, v) \<in> set items. v = PNone \<or> (\<exists>s. v = PStr s)"
    by simp
  ultimately show ?case using rest unfolding v'_def [symmetric] by (intro Cons.IH)
qed

lemma get_cases: "get d k = PNone \<or> (k, get d k) \<in> set d"
  by (auto simp: get_def split: option.splits dest: map_of_SomeD)

lemma truthy_stripped:
  assumes "\<forall>(k, v) \<in> set r. v = PNone \<or> (\<exists>s. v = PStr (strip s))" "truthy (get r k)"
  shows "\<exists>s. get r k = PStr s \<and> s \<noteq> [] \<and> strip s = s"
proof -
  from assms(2) get_cases [of r k] have "(k, get r k) \<in> set r" by auto
  with assms(1) have "get r k = PNone \<or> (\<exists>s. get r k = PStr (strip s))" by auto
  with assms(2) obtain s where "get r k = PStr (strip s)" by auto
  with assms(2) show ?thesis by (auto simp: strip_strip)
qed

subsection \<open>The row dictionaries by column\<close>

lemma zip_take_left: "zip xs (take (length xs) ys) = zip xs ys"
proof -
  have "zip xs (take (length xs) ys) = take (length xs) (zip xs ys)" by (simp add: take_zip)
  then show ?thesis by simp
qed

lemma zip_take_right: "zip (take (length ys) xs) ys = zip xs ys"
proof -
  have "zip (take (length ys) xs) ys = take (length ys) (zip xs ys)" by (simp add: take_zip)
  then show ?thesis by simp
qed

lemma cells_short:
  "length row < length fs \<Longrightarrow>
   map cell_value (cells fs row) = map PStr row @ replicate (length fs - length row) PNone"
  by (simp add: cells_def cell_value_def comp_def)

lemma cells_long:
  "length fs \<le> length row \<Longrightarrow> map cell_value (cells fs row) = take (length fs) (map PStr row)"
  by (simp add: cells_def cell_value_def comp_def take_map)

lemma length_cells: "length (cells fs row) = length fs"
  by (simp add: cells_def)

lemma cells_ragged: "cells fs (take (length fs) row) = cells fs row"
  by (cases "length fs \<le> length row") (simp_all add: cells_def min_def take_map)

text \<open>\<^verbatim>\<open>DictReader\<close> stores the cells of the columns one after the other.\<close>

lemma dictreader_row_fold:
  "fst (dictreader_row fs row)
     = fold (\<lambda>(k, v). AList.update k v) (zip fs (map cell_value (cells fs row))) []"
proof -
  have z: "fold (\<lambda>(k, v). AList.update k (PStr v)) (zip fs row) al
      = fold (\<lambda>(k, v). AList.update k v) (zip fs (map PStr row)) al" for al
  proof -
    have "zip fs (map PStr row) = map (\<lambda>(k, v). (k, PStr v)) (zip fs row)"
      by (simp add: zip_map2)
    then show ?thesis by (simp add: fold_map comp_def split_def)
  qed
  show ?thesis
  proof (cases "length row < length fs")
    case True
    have n: "fold (\<lambda>k. AList.update k PNone) ks al
        = fold (\<lambda>(k, v). AList.update k v) (map (\<lambda>k. (k, PNone)) ks) al" for ks al
      by (simp add: fold_map comp_def)
    have "zip fs (map PStr row @ replicate (length fs - length row) PNone)
        = zip (take (length row) fs) (map PStr row)
          @ zip (drop (length row) fs) (replicate (length fs - length row) PNone)"
      by (simp add: zip_append2)
    also have "zip (take (length row) fs) (map PStr row) = zip fs (map PStr row)"
      using zip_take_right [of "map PStr row" fs] by simp
    also have "zip (drop (length row) fs) (replicate (length fs - length row) PNone)
        = map (\<lambda>k. (k, PNone)) (drop (length row) fs)"
      by (simp add: zip_replicate2)
    finally show ?thesis
      using True by (simp add: dictreader_row_def Let_def cells_short z n)
  next
    case False
    then have "zip fs (map cell_value (cells fs row)) = zip fs (map PStr row)"
      by (simp add: cells_long zip_take_left)
    then show ?thesis
      using False by (simp add: dictreader_row_def Let_def z)
  qed
qed

lemma fold_update_key_list:
  "map fst (fold (\<lambda>(k, v). AList.update k v) xs []) = rev (remdups (rev (map fst xs)))"
proof (induction xs rule: rev_induct)
  case Nil
  then show ?case by simp
next
  case (snoc x xs)
  obtain k v where x: "x = (k, v)" by (cases x)
  have "set (map fst (fold (\<lambda>(k, v). AList.update k v) xs [])) = set (map fst xs)"
    by (simp only: snoc.IH) simp
  then show ?case by (simp add: x AList.update_keys snoc.IH)
qed

lemma fold_update_map_of: "map_of (fold (\<lambda>(k, v). AList.update k v) xs []) = map_of (rev xs)"
proof (induction xs rule: rev_induct)
  case Nil
  then show ?case by simp
next
  case (snoc x xs)
  obtain k v where x: "x = (k, v)" by (cases x)
  show ?case by (simp add: x AList.update_conv' snoc.IH)
qed

lemma dictreader_row_key_list: "map fst (fst (dictreader_row fs row)) = first_columns fs"
  by (simp add: dictreader_row_fold fold_update_key_list first_columns_def length_cells)

lemma dictreader_row_map_of:
  "map_of (fst (dictreader_row fs row)) h
     = map_option cell_value (map_of (rev (zip fs (cells fs row))) h)"
proof -
  have "rev (zip fs (map cell_value (cells fs row)))
      = map (\<lambda>(k, c). (k, cell_value c)) (rev (zip fs (cells fs row)))"
    by (simp add: zip_map2 rev_map)
  then show ?thesis
    by (simp add: dictreader_row_fold fold_update_map_of map_of_map)
qed

text \<open>
  The inner loop stores the items one after the other: the last item under a
  normalized name is the one that stays.
\<close>

lemma build_r_map_of:
  "fst ` set items \<subseteq> set fs \<Longrightarrow>
   \<exists>r'. build_r (map (\<lambda>c. (c, norm c)) fs) items r = Inr r'
     \<and> map_of r' = map_of (rev (map (\<lambda>(k, v).
          (norm k, case v of PStr s \<Rightarrow> PStr (strip s) | _ \<Rightarrow> v)) items) @ r)"
proof (induction items arbitrary: r)
  case Nil
  then show ?case by simp
next
  case (Cons x items)
  obtain k v where x: "x = (k, v)" by (cases x)
  let ?v = "case v of PStr s \<Rightarrow> PStr (strip s) | _ \<Rightarrow> v"
  from Cons.prems x have k: "k \<in> set fs" and rest: "fst ` set items \<subseteq> set fs" by auto
  from Cons.IH [OF rest, of "AList.update (norm k) ?v r"] obtain r'
    where r': "build_r (map (\<lambda>c. (c, norm c)) fs) items (AList.update (norm k) ?v r) = Inr r'"
      and m: "map_of r' = map_of (rev (map (\<lambda>(k, v).
          (norm k, case v of PStr s \<Rightarrow> PStr (strip s) | _ \<Rightarrow> v)) items)
            @ AList.update (norm k) ?v r)"
    by blast
  have "build_r (map (\<lambda>c. (c, norm c)) fs) (x # items) r = Inr r'"
    using r' k by (simp add: x map_of_mapping)
  moreover have "map_of r' = map_of (rev (map (\<lambda>(k, v).
      (norm k, case v of PStr s \<Rightarrow> PStr (strip s) | _ \<Rightarrow> v)) (x # items)) @ r)"
    by (simp add: m x AList.update_conv')
  ultimately show ?case by blast
qed

lemma last_item_stays:
  "distinct (map fst d) \<Longrightarrow>
   map_of (rev (map (\<lambda>(k, v). (n k, f v)) d)) key
     = (let hs = filter (\<lambda>h. n h = key) (map fst d)
        in if hs = [] then None else map_option f (map_of d (last hs)))"
proof (induction d rule: rev_induct)
  case Nil
  then show ?case by simp
next
  case (snoc x d)
  obtain k v where x: "x = (k, v)" by (cases x)
  from snoc.prems x have dk: "distinct (map fst d)" and k: "k \<notin> fst ` set d" by auto
  note ih = snoc.IH [OF dk]
  show ?case
  proof (cases "n k = key")
    case True
    from k have "map_of d k = None" by (simp add: map_of_eq_None_iff)
    with True show ?thesis by (simp add: x Let_def map_add_def)
  next
    case False
    let ?hs = "filter (\<lambda>h. n h = key) (map fst d)"
    have "map_of (d @ [(k, v)]) (last ?hs) = map_of d (last ?hs)" if "?hs \<noteq> []"
    proof -
      from that have "last ?hs \<in> set ?hs" by (rule last_in_set)
      moreover have "set ?hs \<subseteq> fst ` set d" by auto
      ultimately have "last ?hs \<in> fst ` set d" by blast
      with k have "last ?hs \<noteq> k" by blast
      then show ?thesis by (auto simp: map_add_def split: option.splits)
    qed
    with False ih show ?thesis by (simp add: x Let_def)
  qed
qed

lemma strip_cell_value:
  "(case cell_value c of PStr s \<Rightarrow> PStr (strip s) | _ \<Rightarrow> cell_value c)
     = cell_value (map_option strip c)"
  by (cases c) (simp_all add: cell_value_def)

text \<open>Whatever the headers, \<^verbatim>\<open>r.get(key)\<close> is the resolved field of the row.\<close>

lemma build_r_resolved:
  "\<exists>r. build_r (map (\<lambda>c. (c, norm c)) fs) (fst (dictreader_row fs row)) [] = Inr r
     \<and> (\<forall>key. get r key = resolved_value fs row key)"
proof -
  let ?d = "fst (dictreader_row fs row)"
  let ?sv = "\<lambda>v. case v of PStr s \<Rightarrow> PStr (strip s) | _ \<Rightarrow> v"
  from build_r_map_of [OF dictreader_row_keys, of fs row "[]"] obtain r
    where r: "build_r (map (\<lambda>c. (c, norm c)) fs) ?d [] = Inr r"
      and m: "map_of r = map_of (rev (map (\<lambda>(k, v). (norm k, ?sv v)) ?d))"
    by auto
  have dk: "distinct (map fst ?d)"
    by (simp add: dictreader_row_key_list first_columns_def)
  have "get r key = resolved_value fs row key" for key
  proof -
    let ?hs = "filter (\<lambda>h. norm h = key) (first_columns fs)"
    have mk: "map_of r key = (if ?hs = [] then None else map_option ?sv (map_of ?d (last ?hs)))"
      unfolding m using last_item_stays [OF dk, of norm ?sv key]
      by (simp add: dictreader_row_key_list Let_def)
    show ?thesis
    proof (cases "?hs = []")
      case True
      with mk show ?thesis
        by (simp add: get_def resolved_value_def resolved_def cell_value_def)
    next
      case False
      show ?thesis
      proof (cases "map_of (rev (zip fs (cells fs row))) (last ?hs)")
        case None
        with False mk show ?thesis
          by (simp add: get_def resolved_value_def resolved_def cell_of_def cell_value_def
              dictreader_row_map_of)
      next
        case (Some c)
        with False mk have "map_of r key = Some (cell_value (map_option strip c))"
          by (simp add: dictreader_row_map_of strip_cell_value)
        moreover from False Some have "resolved fs row key = map_option strip c"
          by (simp add: resolved_def cell_of_def)
        ultimately show ?thesis by (simp add: get_def resolved_value_def)
      qed
    qed
  qed
  with r show ?thesis by blast
qed

lemma resolved_stripped: "resolved fs row key = Some s \<Longrightarrow> strip s = s"
  by (auto simp: resolved_def Let_def strip_strip split: if_splits)

lemma truthy_resolved_value: "truthy (resolved_value fs row key) \<longleftrightarrow> present (resolved fs row key)"
  by (simp add: resolved_value_def cell_value_def present_def split: option.splits)

lemma present_resolved_value:
  "present (resolved fs row key) \<Longrightarrow>
   PStr (strip (py_str (resolved_value fs row key))) = resolved_value fs row key"
  by (auto simp: resolved_value_def cell_value_def present_def resolved_stripped
      split: option.splits)

lemma py_or_resolved_value:
  "py_or (resolved_value fs row a) (resolved_value fs row b) = either_spelling fs row a b"
  by (simp add: py_or_def either_spelling_def truthy_resolved_value)

lemma cell_of_ragged: "cell_of fs (take (length fs) row) h = cell_of fs row h"
  by (simp add: cell_of_def cells_ragged)

lemma resolved_ragged: "resolved fs (take (length fs) row) key = resolved fs row key"
  by (simp add: resolved_def cell_of_ragged Let_def)

subsection \<open>The body of the loop and the loop\<close>

lemma truthy_py_or: "truthy (py_or a b) \<longleftrightarrow> truthy a \<or> truthy b"
  by (simp add: py_or_def)

lemma clean_row_total:
  "\<exists>res. clean_row (map (\<lambda>c. (c, norm c)) fs) (dictreader_row fs row) = Inr res"
proof -
  from build_r_total [OF dictreader_row_keys]
  obtain r where "build_r (map (\<lambda>c. (c, norm c)) fs) (fst (dictreader_row fs row)) [] = Inr r"
    by blast
  then show ?thesis by (simp add: clean_row_def Let_def)
qed

lemma clean_row_fields: "clean_row mp d = Inr (Some out) \<Longrightarrow> map fst out = canonical_fields"
  by (auto simp: clean_row_def Let_def canonical_fields_def split: sum.splits if_splits)

lemma clean_row_gate_fields:
  assumes "clean_row (map (\<lambda>c. (c, norm c)) fs) (dictreader_row fs row) = Inr (Some out)"
  shows "\<exists>s d. get out ''station_code'' = PStr s \<and> s \<noteq> []
           \<and> get out ''due_date'' = PStr d \<and> d \<noteq> []"
proof -
  let ?mp = "map (\<lambda>c. (c, norm c)) fs"
  from assms obtain r where r: "build_r ?mp (fst (dictreader_row fs row)) [] = Inr r"
    by (auto simp: clean_row_def split: sum.splits)
  have shape: "\<forall>(k, v) \<in> set r. v = PNone \<or> (\<exists>s. v = PStr (strip s))"
    using r by (rule build_r_values) (auto dest: dictreader_row_values)
  let ?sc = "get r ''identifiant_station''"
  let ?a = "get r (''actualisation_de_la_donn'' @ eacute # ''e'')"
  let ?b = "get r ''actualisation_de_la_donnee''"
  from assms r have gate: "truthy ?sc" "truthy (py_or ?a ?b)"
    and out: "get out ''station_code'' = PStr (strip (py_str ?sc))"
      "get out ''due_date'' = PStr (strip (py_str (py_or ?a ?b)))"
    by (auto simp: clean_row_def Let_def get_def split: if_splits)
  from truthy_stripped [OF shape gate(1)]
  obtain s where s: "?sc = PStr s" "s \<noteq> []" "strip s = s" by blast
  have "\<exists>d. py_or ?a ?b = PStr d \<and> d \<noteq> [] \<and> strip d = d"
  proof (cases "truthy ?a")
    case True
    with truthy_stripped [OF shape True] show ?thesis by (simp add: py_or_def)
  next
    case False
    with gate(2) have "truthy ?b" by (simp add: py_or_def)
    with truthy_stripped [OF shape this] False show ?thesis by (simp add: py_or_def)
  qed
  then obtain d where d: "py_or ?a ?b = PStr d" "d \<noteq> []" "strip d = d" by blast
  from out s d show ?thesis by simp
qed

lemma either_spelling_text:
  assumes "present (resolved fs row a) \<or> present (resolved fs row b)"
  shows "PStr (strip (py_str (either_spelling fs row a b))) = either_spelling fs row a b"
proof (cases "present (resolved fs row a)")
  case True
  then show ?thesis by (simp add: either_spelling_def present_resolved_value)
next
  case False
  with assms have "present (resolved fs row b)" by simp
  with False show ?thesis by (simp add: either_spelling_def present_resolved_value)
qed

text \<open>
  Whatever the headers, the body of the loop emits the canonical record of the row
  when the row passes the admission test, and nothing otherwise.
\<close>

lemma clean_row_canonical:
  "clean_row (map (\<lambda>c. (c, norm c)) fs) (dictreader_row fs row)
     = Inr (if admitted fs row then Some (canonical_record fs row) else None)"
proof -
  from build_r_resolved [of fs row] obtain r
    where r: "build_r (map (\<lambda>c. (c, norm c)) fs) (fst (dictreader_row fs row)) [] = Inr r"
      and g: "\<And>key. get r key = resolved_value fs row key"
    by blast
  let ?sc = "resolved_value fs row ''identifiant_station''"
  let ?dd = "either_spelling fs row (''actualisation_de_la_donn'' @ eacute # ''e'')
    ''actualisation_de_la_donnee''"
  have gate: "truthy ?sc \<and> truthy ?dd \<longleftrightarrow> admitted fs row"
    by (auto simp: admitted_def truthy_resolved_value either_spelling_def)
  show ?thesis
  proof (cases "admitted fs row")
    case True
    then have sc: "present (resolved fs row ''identifiant_station'')"
      and dd: "present (resolved fs row (''actualisation_de_la_donn'' @ eacute # ''e''))
        \<or> present (resolved fs row ''actualisation_de_la_donnee'')"
      by (simp_all add: admitted_def)
    have e1: "PStr (strip (py_str ?sc)) = ?sc" using sc by (rule present_resolved_value)
    have e2: "PStr (strip (py_str ?dd)) = ?dd" using dd by (rule either_spelling_text)
    from True gate have t: "\<not> (\<not> truthy ?sc \<or> \<not> truthy ?dd)" by simp
    show ?thesis
      unfolding clean_row_def r sum.case Let_def g py_or_resolved_value e1 e2
        canonical_record_def if_not_P [OF t]
      using True by (simp only: if_True)
  next
    case False
    with gate have t: "\<not> truthy ?sc \<or> \<not> truthy ?dd" by simp
    show ?thesis
      unfolding clean_row_def r sum.case Let_def g py_or_resolved_value if_P [OF t]
      using False by (simp only: if_False)
  qed
qed

lemma admitted_ragged: "admitted fs (take (length fs) row) = admitted fs row"
  by (simp add: admitted_def resolved_ragged)

lemma canonical_record_ragged:
  "canonical_record fs (take (length fs) row) = canonical_record fs row"
  by (simp add: canonical_record_def either_spelling_def resolved_value_def resolved_ragged)

lemma canonical_record_fields: "map fst (canonical_record fs row) = canonical_fields"
  by (simp add: canonical_record_def canonical_fields_def)

lemma cell_of_empty_row: "cell_of fs [] h = None"
proof -
  have "map_of (rev (zip fs (replicate (length fs) None))) h = Some c \<Longrightarrow> c = None" for c
    by (auto dest!: map_of_SomeD set_zip_rightD)
  then show ?thesis by (auto simp: cell_of_def cells_def split: option.splits)
qed

lemma admitted_empty_row: "\<not> admitted fs []"
  by (simp add: admitted_def resolved_def cell_of_empty_row present_def Let_def)

lemma dictreader_row_ragged:
  "fst (dictreader_row fs row) = fst (dictreader_row fs (take (length fs) row))"
proof -
  have "zip fs (take (length fs) row) = take (length fs) (zip fs row)"
    by (simp add: take_zip)
  then have "zip fs (take (length fs) row) = zip fs row" by simp
  then show ?thesis by (simp add: dictreader_row_def Let_def min_def)
qed

lemma clean_row_ragged:
  "clean_row mp (dictreader_row fs row) = clean_row mp (dictreader_row fs (take (length fs) row))"
  using dictreader_row_ragged [of fs row] by (simp add: clean_row_def)

text \<open>The records the loop appends for one row of the file.\<close>

lemma clean_loop_result:
  "clean_loop (map (\<lambda>c. (c, norm c)) fs) fs rows acc
     = Inr (acc @ concat (map (\<lambda>row.
         if row = [] then []
         else case clean_row (map (\<lambda>c. (c, norm c)) fs) (dictreader_row fs row) of
                Inr (Some out) \<Rightarrow> [out]
              | _ \<Rightarrow> []) rows))"
proof (induction rows arbitrary: acc)
  case Nil
  then show ?case by simp
next
  case (Cons row rows)
  from clean_row_total [of fs row] obtain res
    where "clean_row (map (\<lambda>c. (c, norm c)) fs) (dictreader_row fs row) = Inr res"
    by blast
  then show ?case by (cases res) (simp_all add: Cons.IH)
qed

text \<open>The loop appends the canonical records of the admitted rows, in order.\<close>

lemma clean_loop_canonical:
  "clean_loop (map (\<lambda>c. (c, norm c)) fs) fs rows acc
     = Inr (acc @ map (canonical_record fs) (filter (admitted fs) rows))"
proof (induction rows arbitrary: acc)
  case Nil
  then show ?case by simp
next
  case (Cons row rows)
  show ?case
  proof (cases "row = []")
    case True
    then show ?thesis by (simp add: Cons.IH admitted_empty_row)
  next
    case False
    then show ?thesis by (simp add: Cons.IH clean_row_canonical)
  qed
qed

lemma clean_loop_invariant:
  assumes "clean_loop mp fs rows acc = Inr res"
    and "\<And>row out. clean_row mp (dictreader_row fs row) = Inr (Some out) \<Longrightarrow> P out"
    and "\<forall>out \<in> set acc. P out"
  shows "\<forall>out \<in> set res. P out"
  using assms(1,3)
proof (induction rows arbitrary: acc)
  case Nil
  then show ?case by simp
next
  case (Cons row rows)
  show ?case
  proof (cases "row = []")
    case True
    with Cons show ?thesis by simp
  next
    case False
    show ?thesis
    proof (cases "clean_row mp (dictreader_row fs row)")
      case (Inl e)
      with Cons.prems False show ?thesis by simp
    next
      case (Inr r)
      show ?thesis
      proof (cases r)
        case None
        with Cons Inr False show ?thesis by simp
      next
        case (Some out)
        with Inr have "P out" using assms(2) by simp
        with Cons.prems(2) have "\<forall>rec \<in> set (acc @ [out]). P rec" by simp
        moreover from Cons.prems(1) Inr Some False
        have "clean_loop mp fs rows (acc @ [out]) = Inr res" by simp
        ultimately show ?thesis by (rule Cons.IH [rotated])
      qed
    qed
  qed
qed

subsection \<open>Writing the table\<close>

lemma dict_to_list_canonical:
  assumes "map fst rec = canonical_fields"
  shows "dict_to_list canonical_fields rec = Inr (map snd rec)"
proof -
  have d: "distinct canonical_fields" by (simp add: canonical_fields_def)
  with assms have dk: "distinct (map fst rec)" by simp
  have "map (\<lambda>key. case map_of rec key of None \<Rightarrow> PStr [] | Some v \<Rightarrow> v) (map fst rec) = map snd rec"
    using dk by (induction rec) (auto simp: image_iff intro!: map_cong [OF refl] split: option.splits)
  moreover have "\<not> (\<exists>k \<in> set (map fst rec). k \<notin> set canonical_fields)" using assms by simp
  ultimately show ?thesis using assms by (simp add: dict_to_list_def)
qed

lemma writerows_canonical:
  "\<forall>rec \<in> set rows. map fst rec = canonical_fields \<Longrightarrow>
   writerows canonical_fields rows = Inr (map (map snd) rows)"
  by (induction rows) (simp_all add: dict_to_list_canonical)

lemma cleaner_main_cases:
  "(\<exists>out. cleaner_main lines = Inr out \<and> jsonl out \<noteq> [] \<and> csv_header out = canonical_fields
       \<and> (\<forall>rec \<in> set (jsonl out). map fst rec = canonical_fields)
       \<and> csv_rows out = map (map snd) (jsonl out)
       \<and> (\<forall>rec \<in> set (jsonl out). \<exists>s d. get rec ''station_code'' = PStr s \<and> s \<noteq> []
             \<and> get rec ''due_date'' = PStr d \<and> d \<noteq> []))
   \<or> cleaner_main lines = Inl (RuntimeError no_rows_message)"
proof -
  define fs where "fs = (case lines of [] \<Rightarrow> [] | header # _ \<Rightarrow> header)"
  define mp where "mp = map (\<lambda>c. (c, norm c)) fs"
  from clean_loop_result [of fs "tl lines" "[]"] obtain rows
    where rows: "clean_loop mp fs (tl lines) [] = Inr rows" by (simp add: mp_def)
  have main: "cleaner_main lines = write_outputs rows"
    by (simp add: cleaner_main_def fs_def [symmetric] mp_def [symmetric] rows Let_def)
  have fields: "\<forall>rec \<in> set rows. map fst rec = canonical_fields"
    using rows by (rule clean_loop_invariant) (auto dest: clean_row_fields)
  have gate: "\<forall>rec \<in> set rows. \<exists>s d. get rec ''station_code'' = PStr s \<and> s \<noteq> []
      \<and> get rec ''due_date'' = PStr d \<and> d \<noteq> []"
    using rows unfolding mp_def by (rule clean_loop_invariant) (auto dest: clean_row_gate_fields)
  show ?thesis
  proof (cases rows)
    case Nil
    then show ?thesis by (simp add: main write_outputs_def)
  next
    case (Cons first rest)
    with fields have first: "map fst first = canonical_fields" by simp
    have "write_outputs rows
        = Inr \<lparr>csv_header = canonical_fields, csv_rows = map (map snd) rows, jsonl = rows\<rparr>"
      using writerows_canonical [OF fields] Cons first by (simp add: write_outputs_def)
    with fields gate Cons show ?thesis by (simp add: main)
  qed
qed

section \<open>Properties of the Normalizer\<close>

text \<open>
  C8. For every header row and every data row, with no condition on either: the body
  of the loop never raises, and it emits a record exactly when the resolved station
  code and the resolved date are present and non-empty, whatever the other cells hold;
  the record it emits is then the canonical record of the row, with its thirteen
  fields. The cells beyond the last header play no part: the row admits, and yields,
  what the row cut to the number of headers does. The loop over a whole file never
  raises and appends, in order, the canonical record of each admitted row and nothing
  for any other row.
\<close>

theorem normalizer_row_gate:
  "clean_row (map (\<lambda>c. (c, norm c)) fs) (dictreader_row fs row)
     = Inr (if admitted fs row then Some (canonical_record fs row) else None)
   \<and> map fst (canonical_record fs row) = canonical_fields
   \<and> admitted fs (take (length fs) row) = admitted fs row
   \<and> canonical_record fs (take (length fs) row) = canonical_record fs row
   \<and> clean_row (map (\<lambda>c. (c, norm c)) fs) (dictreader_row fs (take (length fs) row))
       = clean_row (map (\<lambda>c. (c, norm c)) fs) (dictreader_row fs row)
   \<and> clean_loop (map (\<lambda>c. (c, norm c)) fs) fs rows []
       = Inr (map (canonical_record fs) (filter (admitted fs) rows))"
  using clean_row_canonical [of fs row] canonical_record_fields [of fs row]
    admitted_ragged [of fs row] canonical_record_ragged [of fs row]
    clean_row_ragged [of "map (\<lambda>c. (c, norm c)) fs" fs row]
    clean_loop_canonical [of fs rows "[]"]
  by simp

theorem normalizer_row_gate_witness:
  "admitted scenario_header (scenario_row @ [''extra''])
   \<and> canonical_record scenario_header (scenario_row @ [''extra'']) = scenario_record
   \<and> \<not> admitted scenario_header [''Gare'', '' '']
   \<and> admitted twin_header twin_row_last
   \<and> canonical_record twin_header twin_row_last
       = sparse_record ''101'' ''2026-01-22 10:00:00'' PNone
   \<and> \<not> admitted twin_header twin_row_first
   \<and> clean_loop (map (\<lambda>c. (c, norm c)) twin_header) twin_header
        [twin_row_first, [], twin_row_last] []
       = Inr [canonical_record twin_header twin_row_last]"
proof -
  have a: "clean_row (map (\<lambda>c. (c, norm c)) scenario_header)
      (dictreader_row scenario_header (scenario_row @ [''extra''])) = Inr (Some scenario_record)"
    by code_simp
  have b: "clean_row (map (\<lambda>c. (c, norm c)) scenario_header)
      (dictreader_row scenario_header [''Gare'', '' '']) = Inr None"
    by code_simp
  have c: "clean_row (map (\<lambda>c. (c, norm c)) twin_header) (dictreader_row twin_header twin_row_last)
      = Inr (Some (sparse_record ''101'' ''2026-01-22 10:00:00'' PNone))"
    by code_simp
  have d: "clean_row (map (\<lambda>c. (c, norm c)) twin_header) (dictreader_row twin_header twin_row_first)
      = Inr None"
    by code_simp
  have e: "filter (admitted twin_header) [twin_row_first, [], twin_row_last] = [twin_row_last]"
    if "\<not> admitted twin_header twin_row_first" "admitted twin_header twin_row_last"
    using that by (simp add: admitted_empty_row)
  from normalizer_row_gate [of scenario_header "scenario_row @ [''extra'']" "[]"] a
  have 1: "admitted scenario_header (scenario_row @ [''extra''])
      \<and> canonical_record scenario_header (scenario_row @ [''extra'']) = scenario_record"
    by (simp split: if_splits)
  from normalizer_row_gate [of scenario_header "[''Gare'', '' '']" "[]"] b
  have 2: "\<not> admitted scenario_header [''Gare'', '' '']"
    by (simp split: if_splits)
  from normalizer_row_gate [of twin_header twin_row_last "[]"] c
  have 3: "admitted twin_header twin_row_last
      \<and> canonical_record twin_header twin_row_last
          = sparse_record ''101'' ''2026-01-22 10:00:00'' PNone"
    by (simp split: if_splits)
  from normalizer_row_gate [of twin_header twin_row_first "[]"] d
  have 4: "\<not> admitted twin_header twin_row_first"
    by (simp split: if_splits)
  from normalizer_row_gate [of twin_header twin_row_last "[twin_row_first, [], twin_row_last]"]
    e [OF 4] 3
  have 5: "clean_loop (map (\<lambda>c. (c, norm c)) twin_header) twin_header
      [twin_row_first, [], twin_row_last] [] = Inr [canonical_record twin_header twin_row_last]"
    by simp
  from 1 2 3 4 5 show ?thesis by simp
qed

text \<open>
  C10. Whatever the file holds, \<^verbatim>\<open>main\<close> either stops on the error of an empty result
  or writes its outputs: every emitted record then has exactly the thirteen canonical
  fields in their order, the header of the table is that same list, and each row of the
  table is the list of the values of its record. The \<^verbatim>\<open>ValueError\<close> of
  \<^verbatim>\<open>DictWriter\<close> for a key outside the header never occurs.
\<close>

theorem emitted_records_uniform:
  "case cleaner_main lines of
     Inl e \<Rightarrow> e = RuntimeError no_rows_message
   | Inr out \<Rightarrow>
       jsonl out \<noteq> [] \<and> csv_header out = canonical_fields
       \<and> (\<forall>rec \<in> set (jsonl out). map fst rec = canonical_fields)
       \<and> csv_rows out = map (map snd) (jsonl out)"
  using cleaner_main_cases [of lines] by (auto split: sum.splits)

theorem emitted_records_uniform_witness:
  "\<exists>out. cleaner_main [scenario_header, scenario_row, [''x''], scenario_row] = Inr out
     \<and> length (jsonl out) = 2 \<and> csv_header out = canonical_fields
     \<and> csv_rows out = map (map snd) (jsonl out)"
proof -
  have "case cleaner_main [scenario_header, scenario_row, [''x''], scenario_row] of
          Inl e \<Rightarrow> False
        | Inr out \<Rightarrow> length (jsonl out) = 2"
    by code_simp
  with emitted_records_uniform [of "[scenario_header, scenario_row, [''x''], scenario_row]"]
  show ?thesis by (auto split: sum.splits)
qed

text \<open>
  C9. The scenario row is admitted: from a file of the five headers and the one row,
  \<^verbatim>\<open>main\<close> emits exactly one record, with \<open>station_code\<close> the text 101,
  \<open>capacity\<close> the integer 20 (from the text 20.0), \<open>is_installed\<close> the integer 1
  (from OUI) and \<open>due_date\<close> the text it was given; the fields with no header are
  \<^verbatim>\<open>None\<close>.
\<close>

theorem scenario_row_normalized:
  "cleaner_main [scenario_header, scenario_row] =
     Inr \<lparr>csv_header = map fst scenario_record,
          csv_rows = [map snd scenario_record],
          jsonl = [scenario_record]\<rparr>
   \<and> get scenario_record ''station_code'' = PStr ''101''
   \<and> get scenario_record ''capacity'' = PInt 20
   \<and> get scenario_record ''is_installed'' = PInt 1
   \<and> get scenario_record ''due_date'' = PStr ''2026-01-22 10:00:00''"
  by code_simp

section \<open>Auxiliary facts on the Consumer\<close>

subsection \<open>The upsert\<close>

lemma on_duplicate_key_update_same_key:
  "pkey old = pkey new \<Longrightarrow> on_duplicate_key_update new old = new"
  by (rule row.equality) (simp_all add: on_duplicate_key_update_def pkey_def)

lemma pkey_on_duplicate_key_update: "pkey (on_duplicate_key_update new old) = pkey old"
  by (simp add: on_duplicate_key_update_def pkey_def)

lemma upsert_existing:
  "pkey new \<in> set (map pkey t) \<Longrightarrow>
   upsert t new = map (\<lambda>old. if pkey old = pkey new then new else old) t"
  by (simp add: upsert_def on_duplicate_key_update_same_key cong: if_cong)

lemma upsert_fresh: "pkey new \<notin> set (map pkey t) \<Longrightarrow> upsert t new = t @ [new]"
  by (simp add: upsert_def)

lemma map_pkey_replace:
  "map pkey (map (\<lambda>old. if pkey old = pkey new then new else old) t) = map pkey t"
  by (induction t) auto

lemma upsert_keys:
  "map pkey (upsert t new)
     = (if pkey new \<in> set (map pkey t) then map pkey t else map pkey t @ [pkey new])"
  by (simp add: upsert_existing upsert_fresh map_pkey_replace)

lemma upsert_distinct: "distinct (map pkey t) \<Longrightarrow> distinct (map pkey (upsert t new))"
  by (simp add: upsert_keys)

lemma filter_key_absent: "k \<notin> set (map pkey t) \<Longrightarrow> filter (\<lambda>r. pkey r = k) t = []"
  by (induction t) auto

lemma replace_key_absent:
  "pkey new \<notin> set (map pkey t) \<Longrightarrow> map (\<lambda>old. if pkey old = pkey new then new else old) t = t"
  by (induction t) auto

lemma filter_key_replace:
  "distinct (map pkey t) \<Longrightarrow> pkey new \<in> set (map pkey t) \<Longrightarrow>
   filter (\<lambda>r. pkey r = pkey new) (map (\<lambda>old. if pkey old = pkey new then new else old) t) = [new]"
proof (induction t)
  case Nil
  then show ?case by simp
next
  case (Cons a t)
  show ?case
  proof (cases "pkey a = pkey new")
    case True
    with Cons.prems have "pkey new \<notin> set (map pkey t)" by auto
    then show ?thesis using True by (simp add: replace_key_absent filter_key_absent)
  next
    case False
    with Cons show ?thesis by auto
  qed
qed

text \<open>After an upsert the table holds exactly one row under the key: the new row.\<close>

lemma upsert_one_row:
  "distinct (map pkey t) \<Longrightarrow> filter (\<lambda>r. pkey r = pkey new) (upsert t new) = [new]"
  by (cases "pkey new \<in> set (map pkey t)")
    (simp_all add: upsert_existing upsert_fresh filter_key_replace filter_key_absent)

text \<open>The rows under other keys stay as they are.\<close>

lemma upsert_other_rows:
  "filter (\<lambda>r. pkey r \<noteq> pkey new) (upsert t new) = filter (\<lambda>r. pkey r \<noteq> pkey new) t"
proof (cases "pkey new \<in> set (map pkey t)")
  case True
  have "filter (\<lambda>r. pkey r \<noteq> pkey new) (map (\<lambda>old. if pkey old = pkey new then new else old) t)
      = filter (\<lambda>r. pkey r \<noteq> pkey new) t"
    by (induction t) auto
  with True show ?thesis by (simp add: upsert_existing)
next
  case False
  then show ?thesis by (simp add: upsert_fresh)
qed

text \<open>The later of two writes under one key is the one that stays.\<close>

lemma upsert_upsert:
  assumes "pkey r1 = pkey r2"
  shows "upsert (upsert t r1) r2 = upsert t r2"
proof (cases "pkey r2 \<in> set (map pkey t)")
  case True
  with assms have in1: "pkey r1 \<in> set (map pkey t)" by simp
  then have e1: "upsert t r1 = map (\<lambda>old. if pkey old = pkey r1 then r1 else old) t"
    by (rule upsert_existing)
  have "pkey r2 \<in> set (map pkey (map (\<lambda>old. if pkey old = pkey r1 then r1 else old) t))"
    using True by (simp only: map_pkey_replace)
  then have "upsert (map (\<lambda>old. if pkey old = pkey r1 then r1 else old) t) r2
      = map (\<lambda>old. if pkey old = pkey r2 then r2 else old)
          (map (\<lambda>old. if pkey old = pkey r1 then r1 else old) t)"
    by (rule upsert_existing)
  also have "\<dots> = map (\<lambda>old. if pkey old = pkey r2 then r2 else old) t"
    using assms by (induction t) auto
  finally show ?thesis using True by (simp add: e1 upsert_existing)
next
  case False
  with assms have out1: "pkey r1 \<notin> set (map pkey t)" by simp
  then have u1: "upsert t r1 = t @ [r1]" by (rule upsert_fresh)
  have "pkey r2 \<in> set (map pkey (t @ [r1]))" using assms by simp
  then have "upsert (t @ [r1]) r2
      = map (\<lambda>old. if pkey old = pkey r2 then r2 else old) (t @ [r1])"
    by (rule upsert_existing)
  also have "\<dots> = t @ [r2]" using False assms by (simp add: replace_key_absent)
  finally show ?thesis using False u1 by (simp add: upsert_fresh)
qed

lemma insert_row_mapped:
  "record_mapper lib msg = Inr r \<Longrightarrow> insert_row lib True t (PObject msg) = (upsert t r, None)"
  by (simp add: insert_row_def)

subsection \<open>Alias resolution\<close>

lemma truthy_nonempty:
  "v \<noteq> PInt 0 \<Longrightarrow> v \<noteq> PBool False \<Longrightarrow> truthy v \<longleftrightarrow> v \<noteq> PNone \<and> v \<noteq> PStr []"
  by (cases v) auto

lemma py_or_first_nonempty:
  "get msg k \<noteq> PInt 0 \<and> get msg k \<noteq> PBool False \<Longrightarrow>
   py_or (get msg k) (first_nonempty msg ks dflt) = first_nonempty msg (k # ks) dflt"
  by (simp add: py_or_def truthy_nonempty)


subsection \<open>parse_due_date\<close>

lemma replace_removes: "new_text \<noteq> [] \<Longrightarrow> c \<notin> set new_text \<Longrightarrow> c \<notin> set (replace c new_text s)"
  by (induction s) (auto simp: replace_def)

lemma replace_append: "replace c new_text (s @ t) = replace c new_text s @ replace c new_text t"
  by (simp add: replace_def)

subsection \<open>The loop\<close>

text \<open>
  A turn whose record decodes and maps to a row, while the store and the broker accept:
  the row is upserted and the checkpoint is the position after the record, whatever
  happened in the turns before it.
\<close>

lemma main_step_success:
  assumes "json_loads lib (val record) = Some (PObject msg)" and "record_mapper lib msg = Inr r"
  shows "main_step lib record True True st
           = st\<lparr>table_of := upsert (table_of st) r,
                commits := commits st @ [offset record + 1],
                printed := printed st @
                  [Insere (py_or (get msg ''station_code'') (get msg ''stationcode''))
                     (offset record)]\<rparr>"
    and "checkpoint (main_step lib record True True st) = Some (offset record + 1)"
  using assms by (simp_all add: main_step_def insert_row_def checkpoint_def)

text \<open>
  A turn in which \<^verbatim>\<open>json.loads\<close> or \<^verbatim>\<open>insert_row\<close> raises: the table and the commits
  are as they were, and the error line with the record's offset is printed.
\<close>

lemma main_step_failure:
  assumes "json_loads lib (val record) = None
           \<or> (\<exists>payload e. json_loads lib (val record) = Some payload
                 \<and> snd (insert_row lib stored (table_of st) payload) = Some e)"
  shows "\<exists>e. main_step lib record stored committed st
           = st\<lparr>printed := printed st @ [Erreur (offset record) e (val record)]\<rparr>"
proof -
  from assms consider
      (decode) "json_loads lib (val record) = None"
    | (insert) payload e where "json_loads lib (val record) = Some payload"
        and "snd (insert_row lib stored (table_of st) payload) = Some e"
    by auto
  then show ?thesis
  proof cases
    case decode
    then show ?thesis by (intro exI [of _ JSONDecodeError]) (simp add: main_step_def)
  next
    case insert
    from insert(2) have "fst (insert_row lib stored (table_of st) payload) = table_of st"
      by (auto simp: insert_row_def split: payload.splits sum.splits if_splits)
    with insert(2) have "insert_row lib stored (table_of st) payload = (table_of st, Some e)"
      by (simp add: prod_eq_iff)
    with insert(1) show ?thesis by (intro exI [of _ e]) (simp add: main_step_def)
  qed
qed

text \<open>
  A turn in which the row is written and \<^verbatim>\<open>consumer.commit()\<close> raises: the row stays
  in the table, nothing is committed, and the error line is printed.
\<close>

lemma commit_refused_turn:
  "main_loop sample_lib initial_state [uncommitted_delivery]
     = (\<lparr>table_of = [message_row], commits = [],
         printed = [Erreur 0 CommitFailedError message_text]\<rparr>, None)"
  by code_simp

text \<open>The loop stops at the first delivery the deserializer refuses, and only there.\<close>

lemma main_loop_ends:
  "snd (main_loop lib st ds) = None
     \<longleftrightarrow> list_all (\<lambda>d. \<exists>v. value_deserializer lib (raw d) = Inr v) ds"
  by (induction ds arbitrary: st) (auto split: sum.splits)

section \<open>Properties of the Record Mapper\<close>




text \<open>
  C6. For every message that is an object: \<^verbatim>\<open>insert_row\<close> raises a \<^verbatim>\<open>ValueError\<close>
  exactly when the station code, the INSEE code or the coordinates resolve to a text
  that is empty once stripped, or the date resolves to nothing that parses. The error
  raised is that of the first failing field in the order station code, date, INSEE code,
  coordinates; the four messages differ; and when one is raised the table is as it
  was. The value of a field is resolved as the code resolves it: the first alias
  with a true value.
\<close>

theorem mandatory_fields:
  "((\<exists>e. snd (insert_row lib ack conn (PObject msg)) = Some (ValueError e))
      \<longleftrightarrow> station_code_of msg = [] \<or> due_date_of lib msg = None
          \<or> code_insee_of msg = [] \<or> geo_of msg = [])
   \<and> (station_code_of msg = [] \<longrightarrow>
        snd (insert_row lib ack conn (PObject msg)) = Some (ValueError ''station_code manquant''))
   \<and> (station_code_of msg \<noteq> [] \<and> due_date_of lib msg = None \<longrightarrow>
        snd (insert_row lib ack conn (PObject msg))
          = Some (ValueError ''due_date/duedate manquant ou illisible''))
   \<and> (station_code_of msg \<noteq> [] \<and> due_date_of lib msg \<noteq> None \<and> code_insee_of msg = [] \<longrightarrow>
        snd (insert_row lib ack conn (PObject msg)) = Some (ValueError ''code_insee manquant''))
   \<and> (station_code_of msg \<noteq> [] \<and> due_date_of lib msg \<noteq> None \<and> code_insee_of msg \<noteq> []
        \<and> geo_of msg = [] \<longrightarrow>
        snd (insert_row lib ack conn (PObject msg)) = Some (ValueError ''geo manquant''))
   \<and> ((\<exists>e. snd (insert_row lib ack conn (PObject msg)) = Some (ValueError e)) \<longrightarrow>
        fst (insert_row lib ack conn (PObject msg)) = conn)
   \<and> distinct [''station_code manquant'', ''due_date/duedate manquant ou illisible'',
                ''code_insee manquant'', ''geo manquant'']"
  by (auto simp: insert_row_def record_mapper_def Let_def split: option.splits)

theorem mandatory_fields_witness:
  "snd (insert_row sample_lib True [message_row] (PObject message_no_insee))
     = Some (ValueError ''code_insee manquant'')
   \<and> fst (insert_row sample_lib True [message_row] (PObject message_no_insee)) = [message_row]
   \<and> code_insee_of message_no_insee = []
   \<and> snd (insert_row sample_lib True [] (PObject message)) = None"
proof -
  have a: "station_code_of message_no_insee \<noteq> [] \<and> due_date_of sample_lib message_no_insee \<noteq> None
      \<and> code_insee_of message_no_insee = []"
    by code_simp
  have b: "station_code_of message \<noteq> [] \<and> due_date_of sample_lib message \<noteq> None
      \<and> code_insee_of message \<noteq> [] \<and> geo_of message \<noteq> []"
    by code_simp
  have c: "snd (insert_row sample_lib True [] (PObject message)) = None
      \<or> (\<exists>e. snd (insert_row sample_lib True [] (PObject message)) = Some (ValueError e))"
    by (simp add: insert_row_def split: sum.splits) (auto simp: record_mapper_def Let_def split: option.splits if_splits)
  from mandatory_fields [of sample_lib True "[message_row]" message_no_insee]
    mandatory_fields [of sample_lib True "[]" message] a b c
  show ?thesis by auto
qed

text \<open>
  C7. For every value of the date field: \<^verbatim>\<open>None\<close> parses to nothing; otherwise the
  text of the value is stripped and each Z in it replaced by +00:00, so that no Z is
  left. If \<^verbatim>\<open>fromisoformat\<close> accepts that text, the result is its result with the
  offset removed and the wall clock fields as they are; if not, the result is that of
  \<^verbatim>\<open>strptime\<close> with seconds when it accepts the text, and otherwise that of
  \<^verbatim>\<open>strptime\<close> without seconds. When nothing parses, \<^verbatim>\<open>insert_row\<close> on a message with a
  station code raises the error of the unreadable date and leaves the table as it was.
\<close>

theorem parse_due_date_order:
  "parse_due_date lib PNone = None
   \<and> CHR ''Z'' \<notin> set (replace CHR ''Z'' ''+00:00'' (strip (py_str v)))
   \<and> replace CHR ''Z'' ''+00:00'' (s @ ''Z'') = replace CHR ''Z'' ''+00:00'' s @ ''+00:00''
   \<and> (v \<noteq> PNone \<and> fromisoformat lib (replace CHR ''Z'' ''+00:00'' (strip (py_str v))) = Some dt
        \<longrightarrow> parse_due_date lib v = Some (dt\<lparr>tzinfo := None\<rparr>))
   \<and> (v \<noteq> PNone \<and> fromisoformat lib (replace CHR ''Z'' ''+00:00'' (strip (py_str v))) = None
        \<and> strptime lib (replace CHR ''Z'' ''+00:00'' (strip (py_str v))) ''%Y-%m-%d %H:%M:%S'' = Some dt
        \<longrightarrow> parse_due_date lib v = Some dt)
   \<and> (v \<noteq> PNone \<and> fromisoformat lib (replace CHR ''Z'' ''+00:00'' (strip (py_str v))) = None
        \<and> strptime lib (replace CHR ''Z'' ''+00:00'' (strip (py_str v))) ''%Y-%m-%d %H:%M:%S'' = None
        \<longrightarrow> parse_due_date lib v
              = strptime lib (replace CHR ''Z'' ''+00:00'' (strip (py_str v))) ''%Y-%m-%d %H:%M'')
   \<and> (station_code_of msg \<noteq> [] \<and> due_date_of lib msg = None
        \<longrightarrow> insert_row lib ack conn (PObject msg)
              = (conn, Some (ValueError ''due_date/duedate manquant ou illisible'')))"
proof -
  have z: "CHR ''Z'' \<notin> set (replace CHR ''Z'' ''+00:00'' (strip (py_str v)))"
    by (rule replace_removes) simp_all
  have a: "replace CHR ''Z'' ''+00:00'' (s @ ''Z'') = replace CHR ''Z'' ''+00:00'' s @ ''+00:00''"
    by (simp add: replace_append) (simp add: replace_def)
  have i: "insert_row lib ack conn (PObject msg)
      = (conn, Some (ValueError ''due_date/duedate manquant ou illisible''))"
    if "station_code_of msg \<noteq> []" "due_date_of lib msg = None"
    using that by (simp add: insert_row_def record_mapper_def)
  from z a i show ?thesis
    by (auto simp: parse_due_date_def Let_def split: option.splits)
qed

theorem parse_due_date_order_witness:
  "parse_due_date sample_lib (PStr ''2026-01-22T10:00:00Z'') = Some sample_datetime
   \<and> parse_due_date sample_lib (PStr ''2026-1-22 10:00:00'') = Some sample_datetime
   \<and> parse_due_date sample_lib (PStr ''2026-1-22 10:00'') = Some sample_datetime
   \<and> insert_row sample_lib True [] (PObject [(''stationcode'', PStr ''101''), (''duedate'', PStr ''demain'')])
       = ([], Some (ValueError ''due_date/duedate manquant ou illisible''))"
proof -
  let ?r = "\<lambda>t. replace CHR ''Z'' ''+00:00'' (strip (py_str (PStr t)))"
  have iso: "fromisoformat sample_lib (?r ''2026-01-22T10:00:00Z'')
      = Some (sample_datetime\<lparr>tzinfo := Some 0\<rparr>)"
    by code_simp
  have naive: "sample_datetime\<lparr>tzinfo := Some 0\<rparr>\<lparr>tzinfo := None\<rparr> = sample_datetime"
    by (simp add: sample_datetime_def)
  have f1: "fromisoformat sample_lib (?r ''2026-1-22 10:00:00'') = None
      \<and> strptime sample_lib (?r ''2026-1-22 10:00:00'') ''%Y-%m-%d %H:%M:%S'' = Some sample_datetime"
    by code_simp
  have f2: "fromisoformat sample_lib (?r ''2026-1-22 10:00'') = None
      \<and> strptime sample_lib (?r ''2026-1-22 10:00'') ''%Y-%m-%d %H:%M:%S'' = None
      \<and> strptime sample_lib (?r ''2026-1-22 10:00'') ''%Y-%m-%d %H:%M'' = Some sample_datetime"
    by code_simp
  have bad: "station_code_of [(''stationcode'', PStr ''101''), (''duedate'', PStr ''demain'')] \<noteq> []
      \<and> due_date_of sample_lib [(''stationcode'', PStr ''101''), (''duedate'', PStr ''demain'')] = None"
    by code_simp
  from parse_due_date_order [of sample_lib "PStr ''2026-01-22T10:00:00Z''" "[]"
      "sample_datetime\<lparr>tzinfo := Some 0\<rparr>"
      "[(''stationcode'', PStr ''101''), (''duedate'', PStr ''demain'')]" True "[]"]
    parse_due_date_order [of sample_lib "PStr ''2026-1-22 10:00:00''" "[]" sample_datetime "[]" True "[]"]
    parse_due_date_order [of sample_lib "PStr ''2026-1-22 10:00''" "[]" sample_datetime "[]" True "[]"]
    iso naive f1 f2 bad
  show ?thesis by simp
qed

text \<open>
  C5 (as stated, refuted). The claim has every record the Normalizer emits carry a
  non-empty INSEE code and non-empty coordinates. From the file below \<^verbatim>\<open>main\<close> emits
  two records: the first has the empty text in both fields, the second has \<^verbatim>\<open>None\<close>.
\<close>

theorem normalizer_emits_without_insee_or_geo:
  "cleaner_main sparse_lines =
     Inr \<lparr>csv_header = canonical_fields,
          csv_rows = [map snd (sparse_record ''101'' ''2026-01-22 10:00:00'' (PStr [])),
                      map snd (sparse_record ''102'' ''2026-01-22 10:05:00'' PNone)],
          jsonl = [sparse_record ''101'' ''2026-01-22 10:00:00'' (PStr []),
                   sparse_record ''102'' ''2026-01-22 10:05:00'' PNone]\<rparr>
   \<and> get (sparse_record ''101'' ''2026-01-22 10:00:00'' (PStr [])) ''code_insee'' = PStr []
   \<and> get (sparse_record ''101'' ''2026-01-22 10:00:00'' (PStr [])) ''geo'' = PStr []
   \<and> get (sparse_record ''102'' ''2026-01-22 10:05:00'' PNone) ''code_insee'' = PNone
   \<and> get (sparse_record ''102'' ''2026-01-22 10:05:00'' PNone) ''geo'' = PNone"
  by code_simp

text \<open>
  C5 (amended). Every row the Record Mapper produces has a non-empty station code, a
  parsed date, a non-empty INSEE code and non-empty coordinates. Every record the
  Normalizer emits has a non-empty station code and a non-empty date, both texts; its
  INSEE code and its coordinates may be \<^verbatim>\<open>None\<close> or empty.
\<close>

theorem produced_records_mandatory:
  "(record_mapper lib msg = Inr r \<longrightarrow>
      station_code r \<noteq> [] \<and> due_date_of lib msg = Some (due_date r)
      \<and> code_insee r \<noteq> [] \<and> geo r \<noteq> [])
   \<and> (cleaner_main lines = Inr out \<longrightarrow>
      (\<forall>rec \<in> set (jsonl out).
         \<exists>s d. get rec ''station_code'' = PStr s \<and> s \<noteq> []
              \<and> get rec ''due_date'' = PStr d \<and> d \<noteq> []))"
proof -
  have "station_code r \<noteq> [] \<and> due_date_of lib msg = Some (due_date r)
      \<and> code_insee r \<noteq> [] \<and> geo r \<noteq> []"
    if "record_mapper lib msg = Inr r"
    using that by (auto simp: record_mapper_def Let_def split: if_splits option.splits)
  with cleaner_main_cases [of lines] show ?thesis by auto
qed

theorem produced_records_mandatory_witness:
  "station_code message_row \<noteq> [] \<and> code_insee message_row \<noteq> [] \<and> geo message_row \<noteq> []
   \<and> due_date_of sample_lib message = Some (due_date message_row)
   \<and> (\<exists>s d. get (sparse_record ''102'' ''2026-01-22 10:05:00'' PNone) ''station_code'' = PStr s
          \<and> s \<noteq> []
          \<and> get (sparse_record ''102'' ''2026-01-22 10:05:00'' PNone) ''due_date'' = PStr d
          \<and> d \<noteq> [])"
proof -
  have m: "record_mapper sample_lib message = Inr message_row" by code_simp
  have c: "cleaner_main sparse_lines =
      Inr \<lparr>csv_header = canonical_fields,
           csv_rows = [map snd (sparse_record ''101'' ''2026-01-22 10:00:00'' (PStr [])),
                       map snd (sparse_record ''102'' ''2026-01-22 10:05:00'' PNone)],
           jsonl = [sparse_record ''101'' ''2026-01-22 10:00:00'' (PStr []),
                    sparse_record ''102'' ''2026-01-22 10:05:00'' PNone]\<rparr>"
    by code_simp
  from produced_records_mandatory [of sample_lib message message_row sparse_lines] m c
  show ?thesis by simp
qed

section \<open>Properties of the upsert and of the loop\<close>

text \<open>
  C2. Take two messages that map to rows with the same key \<^verbatim>\<open>(station_code,
  due_date)\<close>, and a table whose rows have pairwise different keys, as the primary key
  demands. After \<^verbatim>\<open>insert_row\<close> for the first and then for the second, both
  acknowledged by the store, the table holds exactly one row under that key, and it is
  the second row in every column (a column the second message leaves unknown is
  \<^verbatim>\<open>None\<close>, whatever the first message gave); the rows under other keys are as they
  were; the keys are still pairwise different; and \<^verbatim>\<open>insert_row\<close> for the second
  message once more leaves the table as it is.
\<close>

theorem upsert_last_write_wins:
  assumes "record_mapper lib m1 = Inr r1" "record_mapper lib m2 = Inr r2"
    and "pkey r1 = pkey r2" "distinct (map pkey t)"
    and "t1 = fst (insert_row lib True t (PObject m1))"
    and "t2 = fst (insert_row lib True t1 (PObject m2))"
  shows "filter (\<lambda>r. pkey r = pkey r2) t2 = [r2]
    \<and> filter (\<lambda>r. pkey r \<noteq> pkey r2) t2 = filter (\<lambda>r. pkey r \<noteq> pkey r2) t
    \<and> distinct (map pkey t2)
    \<and> insert_row lib True t2 (PObject m2) = (t2, None)"
proof -
  from assms(1,5) have t1: "t1 = upsert t r1" by (simp add: insert_row_mapped)
  from assms(2,6) have "t2 = upsert t1 r2" by (simp add: insert_row_mapped)
  with t1 assms(3) have t2: "t2 = upsert t r2" by (simp add: upsert_upsert)
  have "upsert t2 r2 = t2" unfolding t2 by (rule upsert_upsert) simp
  with assms(2) have "insert_row lib True t2 (PObject m2) = (t2, None)"
    by (simp add: insert_row_mapped)
  with assms(4) show ?thesis
    unfolding t2 by (simp add: upsert_one_row upsert_other_rows upsert_distinct)
qed

theorem upsert_last_write_wins_witness:
  "filter (\<lambda>r. pkey r = pkey message_row)
     (fst (insert_row sample_lib True
        (fst (insert_row sample_lib True [] (PObject message_full))) (PObject message)))
     = [message_row]
   \<and> station_name message_full_row = PStr ''Gare'' \<and> station_name message_row = PNone
   \<and> pkey message_full_row = pkey message_row"
proof -
  have m1: "record_mapper sample_lib message_full = Inr message_full_row" by code_simp
  have m2: "record_mapper sample_lib message = Inr message_row" by code_simp
  have k: "pkey message_full_row = pkey message_row" by code_simp
  have d: "distinct (map pkey ([] :: table))" by simp
  have n: "station_name message_full_row = PStr ''Gare'' \<and> station_name message_row = PNone"
    by code_simp
  from upsert_last_write_wins [OF m1 m2 k d refl refl] k n show ?thesis by simp
qed

text \<open>
  C1 (the loop against its own comments). The comments of \<^verbatim>\<open>main\<close> have the offset of a
  message committed only when its insertion succeeded, and a message whose turn failed
  left uncommitted so that it can be read again. The loop does not keep to this.

  \<^verbatim>\<open>consumer.commit()\<close> sends the position of the consumer, not the offset of one
  message. Two deliveries fail, at offsets 0 and 1 (the store refuses the write; the
  message has no INSEE code): the loop prints the two error lines, writes nothing and
  commits nothing. The delivery at offset 2 succeeds: its commit sets the checkpoint of
  the group to 3, past the two failed messages, which are not delivered again.

  The deserializer runs in the iterator, outside the \<^verbatim>\<open>try\<close>. A message whose value is
  no UTF-8 text ends the loop with a \<^verbatim>\<open>UnicodeDecodeError\<close>: nothing is printed and the
  message behind it is not read.
\<close>

theorem checkpoint_passes_failed_records:
  "main_loop sample_lib initial_state failed_deliveries
     = (\<lparr>table_of = [], commits = [],
         printed = [Erreur 0 MySQLError message_text,
                    Erreur 1 (ValueError ''code_insee manquant'') message_no_insee_text]\<rparr>,
        None)
   \<and> checkpoint (fst (main_loop sample_lib initial_state failed_deliveries)) = None
   \<and> main_loop sample_lib initial_state (failed_deliveries @ [next_delivery])
     = (\<lparr>table_of = [message_row], commits = [3],
         printed = [Erreur 0 MySQLError message_text,
                    Erreur 1 (ValueError ''code_insee manquant'') message_no_insee_text,
                    Insere (PStr ''101'') 2]\<rparr>,
        None)
   \<and> checkpoint (fst (main_loop sample_lib initial_state (failed_deliveries @ [next_delivery])))
     = Some 3
   \<and> main_loop sample_lib initial_state undecodable_deliveries
     = (initial_state, Some UnicodeDecodeError)"
  by code_simp

end
